theory Spec2Isabelle
  imports Main "HOL-Library.Word" "HOL-Library.Sublist"
begin

section \<open>Time values\<close>

text \<open>
  A wall-clock instant (Go's \<open>time.Time\<close>) is an integer number of nanoseconds.
  A \<open>time.Duration\<close> is an \<open>int64\<close> count of nanoseconds: it is a 64-bit word
  read as two's complement, so that the product of two durations wraps as in Go.
\<close>

type_synonym Time = int
type_synonym Duration = "64 word"

definition Time_Add :: "Time \<Rightarrow> Duration \<Rightarrow> Time" where
  "Time_Add t d = t + sint d"

definition Time_After :: "Time \<Rightarrow> Time \<Rightarrow> bool" where
  "Time_After t u = (u < t)"

text \<open>\<open>t.Sub(u)\<close> saturates at the largest and the smallest duration.\<close>

definition Time_Sub :: "Time \<Rightarrow> Time \<Rightarrow> Duration" where
  "Time_Sub t u =
     (if t - u > 2 ^ 63 - 1 then word_of_int (2 ^ 63 - 1)
      else if t - u < - (2 ^ 63) then word_of_int (- (2 ^ 63))
      else word_of_int (t - u))"

definition Minute :: Duration where
  "Minute = 60000000000"

section \<open>Data model\<close>

text \<open>
  The fields of \<open>ActivityDump\<close> that the manager reads and writes. The behavioural
  tree of a dump is opaque to the manager: what the manager does to it is recorded in
  the call traces of the manager state below.
\<close>

record ActivityDump =
  ContainerID :: string
  Comm :: string
  Start :: Time
  Timeout :: Duration
  DifferentiateArgs :: bool
  WithGraph :: bool

text \<open>
  Modelled from the spec: \<open>ProcessCacheEntry\<close> and \<open>GetNextAncestorNoFork\<close> are not
  part of the sources at hand. The Ancestry Resolver lets one walk from a process along
  its parent chain to the root, so an entry carries its process id and the ancestor that
  \<open>GetNextAncestorNoFork\<close> returns (\<open>None\<close> for \<open>nil\<close>, at the root).
\<close>

datatype ProcessCacheEntry = ProcessCacheEntry (Pid: nat) (Ancestor: "ProcessCacheEntry option")

definition GetNextAncestorNoFork :: "ProcessCacheEntry \<Rightarrow> ProcessCacheEntry option" where
  "GetNextAncestorNoFork entry = Ancestor entry"

datatype error =
    External string
  | CouldntFindMap string
  | FailedToInsertTracedEventType
  | CouldntStartTracing ActivityDump error
  | NoActivityDumpWithComm string
  | CouldntSendMetricsFor ActivityDump error
  | CouldntOpenDumpFile error
  | CouldntReadDumpFile error
  | CouldntParseDumpFile error
  | CouldntCreateProfileFile error
  | CouldntChmodProfileFile error
  | CouldntGenerateProfile error

datatype log_msg =
    CouldntInsertContainerID string error
  | CouldntInsertCommFilter string error
  | CouldntStartTracingMsg ActivityDump error
  | TracingStarted ActivityDump
  | TracingStopped ActivityDump
  | CouldntSnapshot ActivityDump error
  | CouldntSendActiveDumpsMetric error
  | CouldntResolveTags error

datatype log_entry = Debugf log_msg | Infof log_msg | Warnf log_msg | Errorf log_msg

text \<open>A \<open>Put\<close> on one of the kernel maps, with the error it returned.\<close>

datatype put_call =
    TracedEventTypesPut nat "64 word" "error option"
  | CgroupsWaitListPut string "64 word" "error option"
  | TracedCommsPut string "64 word" "error option"

record file_node =
  content :: string
  mode :: nat

typedecl Event

text \<open>
  The manager state: the registry \<open>activeDumps\<close>, the buffered channel
  \<open>snapshotQueue\<close> with its capacity, and everything outside the manager that its
  operations act on: the kernel maps (as the sequence of \<open>Put\<close> calls), the log, the
  calls made on the dumps, the metrics and the file system.
\<close>

record ActivityDumpManager =
  activeDumps :: "ActivityDump list"
  snapshotQueue :: "ActivityDump list"
  snapshotQueueCap :: nat
  filterStore :: "put_call list"
  logged :: "log_entry list"
  nodeLookups :: "(ActivityDump \<times> ProcessCacheEntry) list"
  tracedPidUpdates :: "(ActivityDump \<times> nat) list"
  doneCalls :: "ActivityDump list"
  closeCalls :: "ActivityDump list"
  snapshotCalls :: "ActivityDump list"
  eventInserts :: "(ActivityDump \<times> Event) list"
  dumpStatsCalls :: "ActivityDump list"
  gauges :: "nat list"
  files :: "string \<rightharpoonup> file_node"

text \<open>
  The configuration values of the probe that the manager reads, and the constant
  \<open>model.ContainerIDLen\<close>, which is declared in another package.
\<close>

record probe_config =
  ActivityDumpCgroupsWaitListSize :: "64 word"
  ActivityDumpDefaultDumpTimeout :: Duration
  ActivityDumpTracedEventTypes :: "nat list"
  ContainerIDLen :: nat

section \<open>Construction\<close>

datatype getmap_result = GetMapErr error | NotFound | Found

fun put_event_types :: "nat list \<Rightarrow> error option list \<Rightarrow> put_call list \<Rightarrow> error + put_call list" where
  "put_event_types [] errs puts = Inr puts"
| "put_event_types (evtType # rest) errs puts =
     (case errs of
        Some e # errs' \<Rightarrow> Inl FailedToInsertTracedEventType
      | None # errs' \<Rightarrow> put_event_types rest errs' (puts @ [TracedEventTypesPut evtType 1 None])
      | [] \<Rightarrow> put_event_types rest [] (puts @ [TracedEventTypesPut evtType 1 None]))"

definition NewActivityDumpManager ::
  "probe_config \<Rightarrow> getmap_result \<Rightarrow> getmap_result \<Rightarrow> getmap_result \<Rightarrow> getmap_result \<Rightarrow>
   error option list \<Rightarrow> getmap_result \<Rightarrow> (string \<rightharpoonup> file_node) \<Rightarrow> error + ActivityDumpManager" where
  "NewActivityDumpManager cfg tracedPIDs tracedComms cgroupsWaitList tracedEventTypesMap putErrs
     tracedCgroupsMap fs =
     (case tracedPIDs of GetMapErr e \<Rightarrow> Inl e | NotFound \<Rightarrow> Inl (CouldntFindMap ''traced_pids'')
      | Found \<Rightarrow>
     (case tracedComms of GetMapErr e \<Rightarrow> Inl e | NotFound \<Rightarrow> Inl (CouldntFindMap ''traced_comms'')
      | Found \<Rightarrow>
     (case cgroupsWaitList of GetMapErr e \<Rightarrow> Inl e
      | NotFound \<Rightarrow> Inl (CouldntFindMap ''cgroups_wait_list'')
      | Found \<Rightarrow>
     (case tracedEventTypesMap of GetMapErr e \<Rightarrow> Inl e
      | NotFound \<Rightarrow> Inl (CouldntFindMap ''traced_event_types'')
      | Found \<Rightarrow>
     (case put_event_types (ActivityDumpTracedEventTypes cfg) putErrs [] of
        Inl e \<Rightarrow> Inl e
      | Inr puts \<Rightarrow>
     (case tracedCgroupsMap of GetMapErr e \<Rightarrow> Inl e
      | NotFound \<Rightarrow> Inl (CouldntFindMap ''traced_cgroups'')
      | Found \<Rightarrow>
        Inr \<lparr>activeDumps = [], snapshotQueue = [], snapshotQueueCap = 100,
             filterStore = puts, logged = [], nodeLookups = [], tracedPidUpdates = [],
             doneCalls = [], closeCalls = [], snapshotCalls = [], eventInserts = [],
             dumpStatsCalls = [], gauges = [], files = fs\<rparr>))))))"

section \<open>Ancestry seeding\<close>

text \<open>
  The loop of \<open>SearchTracedProcessCacheEntryCallback\<close> that prepends each ancestor to
  \<open>ancestors\<close> until \<open>parent\<close> is \<open>nil\<close>.
\<close>

fun ancestors_loop :: "ProcessCacheEntry option \<Rightarrow> ProcessCacheEntry list \<Rightarrow> ProcessCacheEntry list" where
  "ancestors_loop None ancestors = ancestors"
| "ancestors_loop (Some (ProcessCacheEntry pid anc)) ancestors =
     ancestors_loop anc (ProcessCacheEntry pid anc # ancestors)"

definition compute_ancestors :: "ProcessCacheEntry \<Rightarrow> ProcessCacheEntry list" where
  "compute_ancestors entry = ancestors_loop (GetNextAncestorNoFork entry) [entry]"

text \<open>
  What seeding has done to one dump so far: the entries handed to
  \<open>FindOrCreateProcessActivityNode\<close>, in call order, and the process ids handed to
  \<open>UpdateTracedPidTimeout\<close>. \<open>FindOrCreateProcessActivityNode\<close> is a method of the
  dump and is not part of the sources at hand: it is a parameter \<open>findOrCreate\<close>, which
  answers from the entries the dump was offered before and the current entry, with the
  process id of the node or \<open>None\<close> for \<open>nil\<close>.
\<close>

record seeding =
  offered :: "ProcessCacheEntry list"
  pidTimeouts :: "nat list"

type_synonym find_or_create = "ProcessCacheEntry list \<Rightarrow> ProcessCacheEntry \<Rightarrow> nat option"

definition seed_node :: "find_or_create \<Rightarrow> seeding \<Rightarrow> ProcessCacheEntry \<Rightarrow> seeding" where
  "seed_node findOrCreate sd parent =
     (case findOrCreate (offered sd) parent of
        Some pid \<Rightarrow> \<lparr>offered = offered sd @ [parent], pidTimeouts = pidTimeouts sd @ [pid]\<rparr>
      | None \<Rightarrow> \<lparr>offered = offered sd @ [parent], pidTimeouts = pidTimeouts sd\<rparr>)"

definition SearchTracedProcessCacheEntryCallback ::
  "find_or_create \<Rightarrow> ProcessCacheEntry \<Rightarrow> seeding \<Rightarrow> seeding" where
  "SearchTracedProcessCacheEntryCallback findOrCreate entry sd =
     foldl (seed_node findOrCreate) sd (compute_ancestors entry)"

text \<open>
  \<open>ProcessResolver.Walk\<close> is not part of the sources at hand: it calls the callback on
  every entry of the process cache, given here as the list \<open>cache\<close>.
\<close>

definition Walk :: "ProcessCacheEntry list \<Rightarrow> (ProcessCacheEntry \<Rightarrow> seeding \<Rightarrow> seeding) \<Rightarrow> seeding \<Rightarrow> seeding" where
  "Walk cache callback sd = foldl (\<lambda>acc entry. callback entry acc) sd cache"

section \<open>Insertion\<close>

text \<open>\<open>copy\<close> into a zeroed buffer of \<open>n\<close> bytes.\<close>

definition copy_into :: "nat \<Rightarrow> string \<Rightarrow> string" where
  "copy_into n s = take n s @ replicate (n - length s) (CHR 0x00)"

text \<open>
  What the environment decides during one insertion: the reading of \<open>time.Now()\<close>,
  the errors of the two \<open>Put\<close> calls, the process cache, and the methods that are not
  part of the sources at hand (\<open>ComputeMonotonicTimestamp\<close> of the time resolver,
  \<open>GetTimeoutRawTimestamp\<close> and \<open>FindOrCreateProcessActivityNode\<close> of the dump).
\<close>

record insert_env =
  now :: Time
  waitListPutErr :: "error option"
  tracedCommsPutErr :: "error option"
  processCache :: "ProcessCacheEntry list"
  ComputeMonotonicTimestamp :: "Time \<Rightarrow> 64 word"
  GetTimeoutRawTimestamp :: "ActivityDump \<Rightarrow> 64 word"
  FindOrCreateProcessActivityNode :: find_or_create

fun containerID_active :: "string \<Rightarrow> ActivityDump list \<Rightarrow> bool" where
  "containerID_active cid [] = False"
| "containerID_active cid (dump # dumps) =
     (if ContainerID dump = cid then True else containerID_active cid dumps)"

fun comm_active :: "string \<Rightarrow> ActivityDump list \<Rightarrow> bool" where
  "comm_active c [] = False"
| "comm_active c (dump # dumps) =
     (if Comm dump = c then True else comm_active c dumps)"

definition push_wait_list :: "probe_config \<Rightarrow> insert_env \<Rightarrow> ActivityDump \<Rightarrow> ActivityDumpManager \<Rightarrow> ActivityDumpManager" where
  "push_wait_list cfg env newDump adm =
     (if length (ContainerID newDump) > 0 then
        (let containerIDB = copy_into (ContainerIDLen cfg) (ContainerID newDump);
             waitListTimeout = Time_Add (now env)
               (ActivityDumpCgroupsWaitListSize cfg * ActivityDumpDefaultDumpTimeout cfg);
             waitListTimeoutRaw = ComputeMonotonicTimestamp env waitListTimeout;
             err = waitListPutErr env;
             adm1 = adm\<lparr>filterStore := filterStore adm @
                      [CgroupsWaitListPut containerIDB waitListTimeoutRaw err]\<rparr>
         in case err of
              Some e \<Rightarrow> adm1\<lparr>logged := logged adm1 @
                          [Debugf (CouldntInsertContainerID (ContainerID newDump) e)]\<rparr>
            | None \<Rightarrow> adm1)
      else adm)"

definition push_traced_comm :: "insert_env \<Rightarrow> ActivityDump \<Rightarrow> ActivityDumpManager \<Rightarrow> ActivityDumpManager" where
  "push_traced_comm env newDump adm =
     (if length (Comm newDump) > 0 then
        (let commB = copy_into 16 (Comm newDump);
             v = GetTimeoutRawTimestamp env newDump;
             err = tracedCommsPutErr env;
             adm1 = adm\<lparr>filterStore := filterStore adm @ [TracedCommsPut commB v err]\<rparr>
         in case err of
              Some e \<Rightarrow> adm1\<lparr>logged := logged adm1 @
                          [Debugf (CouldntInsertCommFilter (Comm newDump) e)]\<rparr>
            | None \<Rightarrow> adm1)
      else adm)"

definition seed_traced_pids :: "insert_env \<Rightarrow> ActivityDump \<Rightarrow> ActivityDumpManager \<Rightarrow> ActivityDumpManager" where
  "seed_traced_pids env newDump adm =
     (let sd = Walk (processCache env)
                 (SearchTracedProcessCacheEntryCallback (FindOrCreateProcessActivityNode env))
                 \<lparr>offered = [], pidTimeouts = []\<rparr>
      in adm\<lparr>nodeLookups := nodeLookups adm @ map (Pair newDump) (offered sd),
             tracedPidUpdates := tracedPidUpdates adm @ map (Pair newDump) (pidTimeouts sd)\<rparr>)"

text \<open>The \<open>select\<close> with an empty \<open>default\<close>: a send on the buffered channel, or nothing.\<close>

definition try_enqueue :: "ActivityDump \<Rightarrow> ActivityDumpManager \<Rightarrow> ActivityDumpManager" where
  "try_enqueue newDump adm =
     (if length (snapshotQueue adm) < snapshotQueueCap adm
      then adm\<lparr>snapshotQueue := snapshotQueue adm @ [newDump]\<rparr>
      else adm)"

definition insertActivityDump ::
  "probe_config \<Rightarrow> insert_env \<Rightarrow> ActivityDumpManager \<Rightarrow> ActivityDump \<Rightarrow> error option \<times> ActivityDumpManager" where
  "insertActivityDump cfg env adm newDump =
     (if length (ContainerID newDump) > 0 \<and> containerID_active (ContainerID newDump) (activeDumps adm)
      then (None, adm)
      else if length (Comm newDump) > 0 \<and> comm_active (Comm newDump) (activeDumps adm)
      then (None, adm)
      else
        (let adm1 = push_wait_list cfg env newDump adm;
             adm2 = push_traced_comm env newDump adm1;
             adm3 = seed_traced_pids env newDump adm2;
             adm4 = try_enqueue newDump adm3
         in (None, adm4\<lparr>activeDumps := activeDumps adm4 @ [newDump]\<rparr>)))"

section \<open>Triggers\<close>

text \<open>
  Modelled from the spec: \<open>NewActivityDump\<close> is not part of the sources at hand. A dump
  is created by a factory taking a selector-populating callback: the factory returns the
  dump it allocated (\<open>fresh\<close>) after the callback has run on it, and its error.
\<close>

definition NewActivityDump ::
  "ActivityDump \<Rightarrow> error option \<Rightarrow> (ActivityDump \<Rightarrow> ActivityDump) \<Rightarrow> ActivityDump \<times> error option" where
  "NewActivityDump fresh err option = (option fresh, err)"

record CgroupTracingEvent =
  ContainerContext_ID :: string
  TimeoutRaw :: "64 word"

text \<open>
  \<open>resolveMono\<close> is \<open>TimeResolver.ResolveMonotonicTimestamp\<close>, \<open>cbNow\<close> the reading of
  \<open>time.Now()\<close> inside the callback.
\<close>

definition HandleCgroupTracingEvent ::
  "probe_config \<Rightarrow> ActivityDump \<Rightarrow> error option \<Rightarrow> (64 word \<Rightarrow> Time) \<Rightarrow> Time \<Rightarrow> insert_env \<Rightarrow>
   ActivityDumpManager \<Rightarrow> CgroupTracingEvent \<Rightarrow> ActivityDumpManager" where
  "HandleCgroupTracingEvent cfg fresh factoryErr resolveMono cbNow env adm event =
     (case NewActivityDump fresh factoryErr
             (\<lambda>ad. ad\<lparr>ContainerID := ContainerContext_ID event,
                       Timeout := Time_Sub (resolveMono (TimeoutRaw event)) cbNow,
                       DifferentiateArgs := True,
                       WithGraph := True\<rparr>) of
        (newDump, Some err) \<Rightarrow>
          adm\<lparr>logged := logged adm @ [Errorf (CouldntStartTracingMsg newDump err)]\<rparr>
      | (newDump, None) \<Rightarrow>
          (case insertActivityDump cfg env adm newDump of
             (Some err, adm') \<Rightarrow>
               adm'\<lparr>closeCalls := closeCalls adm' @ [newDump],
                     logged := logged adm' @ [Errorf (CouldntStartTracingMsg newDump err)]\<rparr>
           | (None, adm') \<Rightarrow>
               adm'\<lparr>logged := logged adm' @ [Infof (TracingStarted newDump)]\<rparr>))"

text \<open>
  The request of \<open>DumpActivity\<close>. \<open>p_Timeout\<close> is \<open>time.Duration(params.Timeout)\<close>. The
  answer carries the metadata of the dump (\<open>ToSecurityActivityDumpMessage\<close>, here the
  dump itself) or the error.
\<close>

record DumpActivityParams =
  p_Comm :: string
  p_Timeout :: Duration
  p_DifferentiateArgs :: bool
  p_WithGraph :: bool

datatype SecurityActivityDumpMessage = DumpMetadata ActivityDump | DumpError error

definition DumpActivity ::
  "probe_config \<Rightarrow> ActivityDump \<Rightarrow> error option \<Rightarrow> insert_env \<Rightarrow> ActivityDumpManager \<Rightarrow>
   DumpActivityParams \<Rightarrow> SecurityActivityDumpMessage \<times> error option \<times> ActivityDumpManager" where
  "DumpActivity cfg fresh factoryErr env adm params =
     (case NewActivityDump fresh factoryErr
             (\<lambda>ad. ad\<lparr>Comm := p_Comm params,
                       Timeout := p_Timeout params * Minute,
                       DifferentiateArgs := p_DifferentiateArgs params,
                       WithGraph := p_WithGraph params\<rparr>) of
        (newDump, Some err) \<Rightarrow>
          (let errMsg = CouldntStartTracing newDump err
           in (DumpError errMsg, Some errMsg, adm\<lparr>closeCalls := closeCalls adm @ [newDump]\<rparr>))
      | (newDump, None) \<Rightarrow>
          (case insertActivityDump cfg env adm newDump of
             (Some err, adm') \<Rightarrow>
               (let errMsg = CouldntStartTracing newDump err
                in (DumpError errMsg, Some errMsg,
                    adm'\<lparr>closeCalls := closeCalls adm' @ [newDump]\<rparr>))
           | (None, adm') \<Rightarrow>
               (DumpMetadata newDump, None,
                adm'\<lparr>logged := logged adm' @ [Infof (TracingStarted newDump)]\<rparr>)))"

definition ListActivityDumps ::
  "ActivityDumpManager \<Rightarrow> SecurityActivityDumpMessage list \<times> error option" where
  "ListActivityDumps adm = (map DumpMetadata (activeDumps adm), None)"

section \<open>Removal from the registry\<close>

text \<open>
  \<open>append(a[:i], a[i+1:]...)\<close>. The slice expression \<open>a[i+1:]\<close> panics when \<open>i + 1\<close>
  exceeds the length: that is \<open>None\<close>.
\<close>

definition remove_at :: "nat \<Rightarrow> 'a list \<Rightarrow> 'a list option" where
  "remove_at i a = (if i + 1 \<le> length a then Some (take i a @ drop (i + 1) a) else None)"

text \<open>
  Modelled from the spec: \<open>CommMatches\<close> is a method of the dump and is not part of the
  sources at hand. \<open>StopActivityDump\<close> looks for the first active dump whose Comm equals
  the target.
\<close>

definition CommMatches :: "ActivityDump \<Rightarrow> string \<Rightarrow> bool" where
  "CommMatches d comm = (Comm d = comm)"

text \<open>The loop of \<open>StopActivityDump\<close>: the index and the dump of the first match.\<close>

fun find_comm :: "string \<Rightarrow> nat \<Rightarrow> ActivityDump list \<Rightarrow> (nat \<times> ActivityDump) option" where
  "find_comm comm i [] = None"
| "find_comm comm i (d # ds) =
     (if CommMatches d comm then Some (i, d) else find_comm comm (Suc i) ds)"

record SecurityActivityDumpStoppedMessage =
  StoppedError :: "error option"

definition StopActivityDump ::
  "ActivityDumpManager \<Rightarrow> string \<Rightarrow>
   (SecurityActivityDumpStoppedMessage \<times> error option \<times> ActivityDumpManager) option" where
  "StopActivityDump adm comm =
     (case find_comm comm 0 (activeDumps adm) of
        Some (toDelete, d) \<Rightarrow>
          (case remove_at toDelete (activeDumps adm) of
             None \<Rightarrow> None
           | Some rest \<Rightarrow>
               Some (\<lparr>StoppedError = None\<rparr>, None,
                     adm\<lparr>doneCalls := doneCalls adm @ [d],
                         logged := logged adm @ [Infof (TracingStopped d)],
                         activeDumps := rest\<rparr>))
      | None \<Rightarrow>
          (let errMsg = NoActivityDumpWithComm comm
           in Some (\<lparr>StoppedError = Some errMsg\<rparr>, Some errMsg, adm)))"

text \<open>
  The first loop of \<open>cleanup\<close>. \<open>clock i\<close> is the reading of \<open>time.Now()\<close> in the
  iteration with index \<open>i\<close>; the indices to delete are prepended, the dumps on which
  \<open>Done\<close> is called are recorded in call order.
\<close>

fun cleanup_scan ::
  "(nat \<Rightarrow> Time) \<Rightarrow> nat \<Rightarrow> ActivityDump list \<Rightarrow> nat list \<Rightarrow> ActivityDump list \<Rightarrow>
   nat list \<times> ActivityDump list" where
  "cleanup_scan clock i [] toDelete finalized = (toDelete, finalized)"
| "cleanup_scan clock i (d # ds) toDelete finalized =
     (if Time_After (clock i) (Time_Add (Start d) (Timeout d))
      then cleanup_scan clock (Suc i) ds (i # toDelete) (finalized @ [d])
      else cleanup_scan clock (Suc i) ds toDelete finalized)"

text \<open>The second loop of \<open>cleanup\<close>.\<close>

fun delete_all :: "nat list \<Rightarrow> 'a list \<Rightarrow> 'a list option" where
  "delete_all [] a = Some a"
| "delete_all (i # rest) a =
     (case remove_at i a of None \<Rightarrow> None | Some a' \<Rightarrow> delete_all rest a')"

definition cleanup :: "(nat \<Rightarrow> Time) \<Rightarrow> ActivityDumpManager \<Rightarrow> ActivityDumpManager option" where
  "cleanup clock adm =
     (case cleanup_scan clock 0 (activeDumps adm) [] [] of
        (toDelete, finalized) \<Rightarrow>
          (case delete_all toDelete (activeDumps adm) of
             None \<Rightarrow> None
           | Some rest \<Rightarrow>
               Some (adm\<lparr>doneCalls := doneCalls adm @ finalized, activeDumps := rest\<rparr>)))"

section \<open>Events, tags, snapshots and metrics\<close>

text \<open>\<open>ProcessEvent\<close> offers the event to every active dump (\<open>d.Insert(event)\<close>).\<close>

definition ProcessEvent :: "ActivityDumpManager \<Rightarrow> Event \<Rightarrow> ActivityDumpManager" where
  "ProcessEvent adm event =
     adm\<lparr>eventInserts := eventInserts adm @ map (\<lambda>d. (d, event)) (activeDumps adm)\<rparr>"

text \<open>
  \<open>resolveTags\<close>: \<open>resolve\<close> is the error of \<open>dump.ResolveTags()\<close>, a method that is
  not part of the sources at hand.
\<close>

fun resolve_all :: "(ActivityDump \<Rightarrow> error option) \<Rightarrow> ActivityDump list \<Rightarrow> log_entry list \<Rightarrow> log_entry list" where
  "resolve_all resolve [] lg = lg"
| "resolve_all resolve (dump # dumps) lg =
     (case resolve dump of
        Some err \<Rightarrow> resolve_all resolve dumps (lg @ [Warnf (CouldntResolveTags err)])
      | None \<Rightarrow> resolve_all resolve dumps lg)"

definition resolveTags :: "(ActivityDump \<Rightarrow> error option) \<Rightarrow> ActivityDumpManager \<Rightarrow> ActivityDumpManager" where
  "resolveTags resolve adm = adm\<lparr>logged := resolve_all resolve (activeDumps adm) (logged adm)\<rparr>"

text \<open>
  The branch \<open>case dump := <-adm.snapshotQueue\<close> of the loop of \<open>Start\<close>, taken when
  the channel holds a dump: \<open>snapshot\<close> is the error of \<open>dump.Snapshot()\<close>.
\<close>

definition receive_snapshot :: "(ActivityDump \<Rightarrow> error option) \<Rightarrow> ActivityDumpManager \<Rightarrow> ActivityDumpManager" where
  "receive_snapshot snapshot adm =
     (case snapshotQueue adm of
        [] \<Rightarrow> adm
      | dump # queue \<Rightarrow>
          (let adm1 = adm\<lparr>snapshotQueue := queue, snapshotCalls := snapshotCalls adm @ [dump]\<rparr>
           in case snapshot dump of
                Some err \<Rightarrow> adm1\<lparr>logged := logged adm1 @ [Errorf (CouldntSnapshot dump err)]\<rparr>
              | None \<Rightarrow> adm1))"

text \<open>
  The loop of \<open>SendStats\<close>: \<open>dumpSendStats\<close> is the error of \<open>dump.SendStats()\<close>, a
  method that is not part of the sources at hand. The dumps asked are recorded in order.
\<close>

fun send_dump_stats ::
  "(ActivityDump \<Rightarrow> error option) \<Rightarrow> ActivityDump list \<Rightarrow> ActivityDump list \<Rightarrow>
   error option \<times> ActivityDump list" where
  "send_dump_stats dumpSendStats [] asked = (None, asked)"
| "send_dump_stats dumpSendStats (dump # dumps) asked =
     (case dumpSendStats dump of
        Some err \<Rightarrow> (Some (CouldntSendMetricsFor dump err), asked @ [dump])
      | None \<Rightarrow> send_dump_stats dumpSendStats dumps (asked @ [dump]))"

text \<open>
  \<open>gaugeErr\<close> is the error of the \<open>Gauge\<close> call of the statsd client; \<open>gauges\<close> records
  the values handed to it.
\<close>

definition SendStats ::
  "(ActivityDump \<Rightarrow> error option) \<Rightarrow> error option \<Rightarrow> ActivityDumpManager \<Rightarrow>
   error option \<times> ActivityDumpManager" where
  "SendStats dumpSendStats gaugeErr adm =
     (case send_dump_stats dumpSendStats (activeDumps adm) (dumpStatsCalls adm) of
        (Some err, asked) \<Rightarrow> (Some err, adm\<lparr>dumpStatsCalls := asked\<rparr>)
      | (None, asked) \<Rightarrow>
          (let adm1 = adm\<lparr>dumpStatsCalls := asked,
                           gauges := gauges adm @ [length (activeDumps adm)]\<rparr>
           in case gaugeErr of
                Some err \<Rightarrow>
                  (None, adm1\<lparr>logged := logged adm1 @ [Errorf (CouldntSendActiveDumpsMetric err)]\<rparr>)
              | None \<Rightarrow> (None, adm1)))"

section \<open>Profile generation\<close>

record ProfileRule =
  ID :: string
  Expression :: string

record Profile =
  Name :: string
  Selector :: string
  Rules :: "ProfileRule list"

definition nl :: string where
  "nl = [CHR 0x0A]"

text \<open>The text that \<open>profileTmpl\<close> produces: the body of \<open>range\<close>, then the whole.\<close>

definition render_rule :: "ProfileRule \<Rightarrow> string" where
  "render_rule r = nl @ ''  - id: '' @ ID r @ nl @ ''    expression: '' @ Expression r @ nl"

definition execute_profileTmpl :: "Profile \<Rightarrow> string" where
  "execute_profileTmpl p =
     ''---'' @ nl @ ''name: '' @ Name p @ nl @ ''selector:'' @ nl @ ''  - '' @ Selector p @ nl
     @ nl @ ''rules:'' @ concat (map render_rule (Rules p)) @ nl"

text \<open>
  What the environment decides in one call of \<open>GenerateProfile\<close>: the errors of
  \<open>os.Open\<close>, \<open>ioutil.ReadAll\<close>, \<open>ioutil.TempFile\<close> (or the random suffix of the name
  it chose), \<open>os.Chmod\<close> and of the execution of the template (with the number of bytes
  written before it failed); \<open>json.Unmarshal\<close> on a serialized dump of type \<open>'d\<close>, and
  \<open>GenerateProfileData\<close>, a method of the dump that is not part of the sources at hand.
\<close>

record 'd generate_env =
  openErr :: "error option"
  readErr :: "error option"
  Unmarshal :: "string \<Rightarrow> error + 'd"
  tempFile :: "error + string"
  chmodErr :: "error option"
  executeErr :: "(error \<times> nat) option"
  GenerateProfileData :: "'d \<Rightarrow> Profile"

record SecurityProfileGeneratedMessage =
  ProfilePath :: string
  ProfileError :: "error option"

definition os_Open :: "(string \<rightharpoonup> file_node) \<Rightarrow> error option \<Rightarrow> string \<Rightarrow> error + file_node" where
  "os_Open fs err path =
     (case err of
        Some e \<Rightarrow> Inl e
      | None \<Rightarrow> (case fs path of None \<Rightarrow> Inl (External ''no such file or directory'') | Some f \<Rightarrow> Inr f))"

text \<open>The permission bits 0600 and 0400, written in octal in the source.\<close>

definition mode_0600 :: nat where
  "mode_0600 = 6 * 8 ^ 2 + 0 * 8 + 0"

definition mode_0400 :: nat where
  "mode_0400 = 4 * 8 ^ 2 + 0 * 8 + 0"

text \<open>
  \<open>ioutil.TempFile("/tmp", "profile-")\<close> creates a file that did not exist, with mode
  0600, and fails when the name it tried last is taken.
\<close>

definition ioutil_TempFile :: "(string \<rightharpoonup> file_node) \<Rightarrow> error + string \<Rightarrow> error + string \<times> (string \<rightharpoonup> file_node)" where
  "ioutil_TempFile fs outcome =
     (case outcome of
        Inl e \<Rightarrow> Inl e
      | Inr rnd \<Rightarrow>
          (let name = ''/tmp/profile-'' @ rnd
           in case fs name of
                Some f \<Rightarrow> Inl (External ''file exists'')
              | None \<Rightarrow> Inr (name, fs(name \<mapsto> \<lparr>content = [], mode = mode_0600\<rparr>))))"

definition profile_failed ::
  "error \<Rightarrow> ActivityDumpManager \<Rightarrow> SecurityProfileGeneratedMessage \<times> error option \<times> ActivityDumpManager" where
  "profile_failed errMsg adm = (\<lparr>ProfilePath = [], ProfileError = Some errMsg\<rparr>, Some errMsg, adm)"

definition GenerateProfile ::
  "'d generate_env \<Rightarrow> ActivityDumpManager \<Rightarrow> string \<Rightarrow>
   SecurityProfileGeneratedMessage \<times> error option \<times> ActivityDumpManager" where
  "GenerateProfile env adm ActivityDumpFile =
     (case os_Open (files adm) (openErr env) ActivityDumpFile of
        Inl err \<Rightarrow> profile_failed (CouldntOpenDumpFile err) adm
      | Inr f \<Rightarrow>
     (case readErr env of
        Some err \<Rightarrow> profile_failed (CouldntReadDumpFile err) adm
      | None \<Rightarrow>
     (case Unmarshal env (content f) of
        Inl err \<Rightarrow> profile_failed (CouldntParseDumpFile err) adm
      | Inr dump \<Rightarrow>
     (case ioutil_TempFile (files adm) (tempFile env) of
        Inl err \<Rightarrow> profile_failed (CouldntCreateProfileFile err) adm
      | Inr (name, fs1) \<Rightarrow>
     (case chmodErr env of
        Some err \<Rightarrow> profile_failed (CouldntChmodProfileFile err) (adm\<lparr>files := fs1\<rparr>)
      | None \<Rightarrow>
     (let out = execute_profileTmpl (GenerateProfileData env dump)
      in case executeErr env of
           Some (err, written) \<Rightarrow>
             profile_failed (CouldntGenerateProfile err)
               (adm\<lparr>files := fs1(name \<mapsto> \<lparr>content = take written out, mode = mode_0400\<rparr>)\<rparr>)
         | None \<Rightarrow>
             (\<lparr>ProfilePath = name, ProfileError = None\<rparr>, None,
              adm\<lparr>files := fs1(name \<mapsto> \<lparr>content = out, mode = mode_0400\<rparr>)\<rparr>)))))))"

section \<open>Invariants of the registry\<close>

definition unique_ContainerID :: "ActivityDump list \<Rightarrow> bool" where
  "unique_ContainerID dumps = distinct (filter (\<lambda>c. c \<noteq> []) (map ContainerID dumps))"

definition unique_Comm :: "ActivityDump list \<Rightarrow> bool" where
  "unique_Comm dumps = distinct (filter (\<lambda>c. c \<noteq> []) (map Comm dumps))"

definition registry_ok :: "ActivityDumpManager \<Rightarrow> bool" where
  "registry_ok adm = (unique_ContainerID (activeDumps adm) \<and> unique_Comm (activeDumps adm))"

section \<open>Example values\<close>

definition ex_cfg :: probe_config where
  "ex_cfg = \<lparr>ActivityDumpCgroupsWaitListSize = 2, ActivityDumpDefaultDumpTimeout = 1800,
             ActivityDumpTracedEventTypes = [1, 2], ContainerIDLen = 4\<rparr>"

definition ex_root :: ProcessCacheEntry where
  "ex_root = ProcessCacheEntry 1 None"

definition ex_mid :: ProcessCacheEntry where
  "ex_mid = ProcessCacheEntry 20 (Some ex_root)"

definition ex_leaf :: ProcessCacheEntry where
  "ex_leaf = ProcessCacheEntry 300 (Some ex_mid)"

definition ex_env :: insert_env where
  "ex_env = \<lparr>now = 1000, waitListPutErr = None, tracedCommsPutErr = None,
             processCache = [ex_leaf],
             ComputeMonotonicTimestamp = (\<lambda>t. word_of_int t),
             GetTimeoutRawTimestamp = (\<lambda>d. word_of_int (Time_Add (Start d) (Timeout d))),
             FindOrCreateProcessActivityNode = (\<lambda>seen entry. Some (Pid entry))\<rparr>"

definition ex_env_failing :: insert_env where
  "ex_env_failing = ex_env\<lparr>waitListPutErr := Some (External ''EPERM''),
                           tracedCommsPutErr := Some (External ''EPERM'')\<rparr>"

definition ex_curl :: ActivityDump where
  "ex_curl = \<lparr>ContainerID = [], Comm = ''curl'', Start = 0, Timeout = 10,
              DifferentiateArgs = False, WithGraph = False\<rparr>"

definition ex_nginx :: ActivityDump where
  "ex_nginx = \<lparr>ContainerID = [], Comm = ''nginx'', Start = 5, Timeout = 20,
               DifferentiateArgs = False, WithGraph = False\<rparr>"

definition ex_container :: ActivityDump where
  "ex_container = \<lparr>ContainerID = ''c1'', Comm = [], Start = 2, Timeout = 3,
                   DifferentiateArgs = True, WithGraph = True\<rparr>"

definition ex_other :: ActivityDump where
  "ex_other = \<lparr>ContainerID = ''c2'', Comm = [], Start = 7, Timeout = 30,
               DifferentiateArgs = True, WithGraph = True\<rparr>"

definition ex_fresh :: ActivityDump where
  "ex_fresh = \<lparr>ContainerID = [], Comm = [], Start = 1000, Timeout = 0,
               DifferentiateArgs = False, WithGraph = False\<rparr>"

definition ex_empty :: ActivityDumpManager where
  "ex_empty = \<lparr>activeDumps = [], snapshotQueue = [], snapshotQueueCap = 100,
               filterStore = [], logged = [], nodeLookups = [], tracedPidUpdates = [],
               doneCalls = [], closeCalls = [], snapshotCalls = [], eventInserts = [],
               dumpStatsCalls = [], gauges = [], files = Map.empty\<rparr>"

definition ex_adm :: ActivityDumpManager where
  "ex_adm = ex_empty\<lparr>activeDumps := [ex_container, ex_curl]\<rparr>"

definition ex_full :: ActivityDumpManager where
  "ex_full = ex_empty\<lparr>snapshotQueue := replicate 100 ex_nginx\<rparr>"

definition ex_params :: DumpActivityParams where
  "ex_params = \<lparr>p_Comm = ''curl'', p_Timeout = 1, p_DifferentiateArgs = True, p_WithGraph = False\<rparr>"

definition ex_event :: CgroupTracingEvent where
  "ex_event = \<lparr>ContainerContext_ID = ''c1'', TimeoutRaw = 5000\<rparr>"

definition ex_stats_ok :: "ActivityDump \<Rightarrow> error option" where
  "ex_stats_ok d = None"

definition ex_stats_failing :: "ActivityDump \<Rightarrow> error option" where
  "ex_stats_failing d = (if Comm d = ''curl'' then Some (External ''no route'') else None)"

definition ex_disk :: ActivityDumpManager where
  "ex_disk = ex_adm\<lparr>files := [''/tmp/dump.json'' \<mapsto> \<lparr>content = ''{}'', mode = 420\<rparr>]\<rparr>"

definition ex_profile :: Profile where
  "ex_profile = \<lparr>Name = ''N'', Selector = ''S'', Rules = [\<lparr>ID = ''id1'', Expression = ''expr1''\<rparr>]\<rparr>"

definition ex_genv :: "string generate_env" where
  "ex_genv = \<lparr>openErr = None, readErr = None,
              Unmarshal = (\<lambda>data. if data = ''{}'' then Inr ''dump'' else Inl (External ''bad json'')),
              tempFile = Inr ''123'', chmodErr = None, executeErr = None,
              GenerateProfileData = (\<lambda>d. ex_profile)\<rparr>"

definition ex_clock :: "nat \<Rightarrow> Time" where
  "ex_clock i = 10"

section \<open>The registry during an insertion\<close>

lemma containerID_active_iff:
  "containerID_active cid dumps = (\<exists>dump \<in> set dumps. ContainerID dump = cid)"
  by (induction dumps) auto

lemma comm_active_iff: "comm_active c dumps = (\<exists>dump \<in> set dumps. Comm dump = c)"
  by (induction dumps) auto

lemma activeDumps_push_wait_list: "activeDumps (push_wait_list cfg env d adm) = activeDumps adm"
  by (simp add: push_wait_list_def Let_def split: option.splits)

lemma activeDumps_push_traced_comm: "activeDumps (push_traced_comm env d adm) = activeDumps adm"
  by (simp add: push_traced_comm_def Let_def split: option.splits)

lemma activeDumps_seed_traced_pids: "activeDumps (seed_traced_pids env d adm) = activeDumps adm"
  by (simp add: seed_traced_pids_def Let_def)

lemma activeDumps_try_enqueue: "activeDumps (try_enqueue d adm) = activeDumps adm"
  by (simp add: try_enqueue_def)

lemmas activeDumps_insert_steps =
  activeDumps_push_wait_list activeDumps_push_traced_comm activeDumps_seed_traced_pids
  activeDumps_try_enqueue

lemma activeDumps_insertActivityDump:
  "activeDumps (snd (insertActivityDump cfg env adm d)) =
     (if (ContainerID d \<noteq> [] \<and> (\<exists>x \<in> set (activeDumps adm). ContainerID x = ContainerID d))
         \<or> (Comm d \<noteq> [] \<and> (\<exists>x \<in> set (activeDumps adm). Comm x = Comm d))
      then activeDumps adm else activeDumps adm @ [d])"
  by (simp add: insertActivityDump_def Let_def containerID_active_iff comm_active_iff
      activeDumps_insert_steps)

lemma fst_insertActivityDump: "fst (insertActivityDump cfg env adm d) = None"
  by (simp add: insertActivityDump_def Let_def)

lemma unique_ContainerID_snoc:
  "unique_ContainerID (dumps @ [d]) =
     (unique_ContainerID dumps \<and> (ContainerID d \<noteq> [] \<longrightarrow> ContainerID d \<notin> ContainerID ` set dumps))"
  by (auto simp: unique_ContainerID_def)

lemma unique_Comm_snoc:
  "unique_Comm (dumps @ [d]) =
     (unique_Comm dumps \<and> (Comm d \<noteq> [] \<longrightarrow> Comm d \<notin> Comm ` set dumps))"
  by (auto simp: unique_Comm_def)

lemma registry_ok_insertActivityDump:
  "registry_ok adm \<Longrightarrow> registry_ok (snd (insertActivityDump cfg env adm d))"
  unfolding registry_ok_def activeDumps_insertActivityDump
  by (auto simp: unique_ContainerID_snoc unique_Comm_snoc)

lemma insertActivityDump_conflict:
  "(ContainerID d \<noteq> [] \<and> (\<exists>x \<in> set (activeDumps adm). ContainerID x = ContainerID d))
     \<or> (Comm d \<noteq> [] \<and> (\<exists>x \<in> set (activeDumps adm). Comm x = Comm d)) \<Longrightarrow>
   insertActivityDump cfg env adm d = (None, adm)"
  by (auto simp: insertActivityDump_def containerID_active_iff comm_active_iff)

lemma insertActivityDump_fresh:
  assumes "\<not> (ContainerID d \<noteq> [] \<and> (\<exists>x \<in> set (activeDumps adm). ContainerID x = ContainerID d))"
    and "\<not> (Comm d \<noteq> [] \<and> (\<exists>x \<in> set (activeDumps adm). Comm x = Comm d))"
  shows "insertActivityDump cfg env adm d =
    (None,
     adm\<lparr>filterStore := filterStore adm
            @ (if ContainerID d \<noteq> [] then
                 [CgroupsWaitListPut (copy_into (ContainerIDLen cfg) (ContainerID d))
                    (ComputeMonotonicTimestamp env (Time_Add (now env)
                       (ActivityDumpCgroupsWaitListSize cfg * ActivityDumpDefaultDumpTimeout cfg)))
                    (waitListPutErr env)]
               else [])
            @ (if Comm d \<noteq> [] then
                 [TracedCommsPut (copy_into 16 (Comm d)) (GetTimeoutRawTimestamp env d)
                    (tracedCommsPutErr env)]
               else []),
         logged := logged adm
            @ (case waitListPutErr env of
                 Some e \<Rightarrow> if ContainerID d \<noteq> []
                           then [Debugf (CouldntInsertContainerID (ContainerID d) e)] else []
               | None \<Rightarrow> [])
            @ (case tracedCommsPutErr env of
                 Some e \<Rightarrow> if Comm d \<noteq> []
                           then [Debugf (CouldntInsertCommFilter (Comm d) e)] else []
               | None \<Rightarrow> []),
         nodeLookups := nodeLookups adm
            @ map (Pair d) (offered (Walk (processCache env)
                 (SearchTracedProcessCacheEntryCallback (FindOrCreateProcessActivityNode env))
                 \<lparr>offered = [], pidTimeouts = []\<rparr>)),
         tracedPidUpdates := tracedPidUpdates adm
            @ map (Pair d) (pidTimeouts (Walk (processCache env)
                 (SearchTracedProcessCacheEntryCallback (FindOrCreateProcessActivityNode env))
                 \<lparr>offered = [], pidTimeouts = []\<rparr>)),
         snapshotQueue := (if length (snapshotQueue adm) < snapshotQueueCap adm
                           then snapshotQueue adm @ [d] else snapshotQueue adm),
         activeDumps := activeDumps adm @ [d]\<rparr>)"
proof -
  have c1: "(0 < length (ContainerID d) \<and> containerID_active (ContainerID d) (activeDumps adm)) = False"
    using assms(1) by (auto simp: containerID_active_iff)
  have c2: "(0 < length (Comm d) \<and> comm_active (Comm d) (activeDumps adm)) = False"
    using assms(2) by (auto simp: comm_active_iff)
  show ?thesis
    by (simp only: insertActivityDump_def c1 c2 if_False)
       (simp add: Let_def push_wait_list_def push_traced_comm_def seed_traced_pids_def
          try_enqueue_def split: option.splits)
qed

section \<open>The two loops of cleanup\<close>

lemma remove_at_last: "remove_at (length pre) (pre @ [d]) = Some pre"
  by (simp add: remove_at_def)

lemma remove_at_append:
  "j < length ys \<Longrightarrow> remove_at j (ys @ zs) = Some (take j ys @ drop (Suc j) ys @ zs)"
  by (simp add: remove_at_def)

lemma remove_at_in_range:
  "j < length ys \<Longrightarrow> remove_at j ys = Some (take j ys @ drop (Suc j) ys)"
  by (simp add: remove_at_def)

text \<open>
  Deleting at falling indices below the length of a prefix leaves what follows the
  prefix alone, and never leaves the range of the slice.
\<close>

lemma delete_all_append:
  "sorted_wrt (>) js \<Longrightarrow> \<forall>j \<in> set js. j < length ys \<Longrightarrow>
   \<exists>r. delete_all js ys = Some r \<and> delete_all js (ys @ zs) = Some (r @ zs)"
proof (induction js arbitrary: ys)
  case Nil
  then show ?case by simp
next
  case (Cons j js)
  let ?ys' = "take j ys @ drop (Suc j) ys"
  from Cons.prems have j: "j < length ys" by simp
  have len: "length ?ys' = length ys - 1" using j by simp
  have "\<forall>k \<in> set js. k < length ?ys'"
  proof
    fix k assume "k \<in> set js"
    with Cons.prems have "k < j" by auto
    with j len show "k < length ?ys'" by linarith
  qed
  moreover from Cons.prems have "sorted_wrt (>) js" by simp
  ultimately obtain r where r: "delete_all js ?ys' = Some r" "delete_all js (?ys' @ zs) = Some (r @ zs)"
    using Cons.IH by blast
  show ?case using j r by (simp add: remove_at_append remove_at_in_range)
qed

lemma cleanup_scan_finalized:
  "snd (cleanup_scan clock i ds del fin) =
     fin @ map snd (filter (\<lambda>(j, d). Time_After (clock j) (Time_Add (Start d) (Timeout d))) (enumerate i ds))"
  by (induction ds arbitrary: i del fin) simp_all

lemma cleanup_scan_delete:
  "length pre = i \<Longrightarrow> sorted_wrt (>) del \<Longrightarrow> \<forall>j \<in> set del. j < i \<Longrightarrow>
   \<exists>r. delete_all del pre = Some r \<and>
       delete_all (fst (cleanup_scan clock i ds del fin)) (pre @ ds) =
         Some (r @ map snd (filter (\<lambda>(j, d). \<not> Time_After (clock j) (Time_Add (Start d) (Timeout d)))
                              (enumerate i ds)))"
proof (induction ds arbitrary: i pre del fin)
  case Nil
  then show ?case using delete_all_append [of del pre "[]"] by auto
next
  case (Cons d ds)
  from Cons.prems obtain r where r: "delete_all del pre = Some r" "delete_all del (pre @ [d]) = Some (r @ [d])"
    using delete_all_append [of del pre "[d]"] by auto
  show ?case
  proof (cases "Time_After (clock i) (Time_Add (Start d) (Timeout d))")
    case True
    have "sorted_wrt (>) (i # del)" using Cons.prems by auto
    moreover have "\<forall>j \<in> set (i # del). j < Suc i" using Cons.prems by auto
    moreover have "length (pre @ [d]) = Suc i" using Cons.prems by simp
    ultimately obtain r' where r': "delete_all (i # del) (pre @ [d]) = Some r'"
      "delete_all (fst (cleanup_scan clock (Suc i) ds (i # del) (fin @ [d]))) ((pre @ [d]) @ ds) =
         Some (r' @ map snd (filter (\<lambda>(j, d). \<not> Time_After (clock j) (Time_Add (Start d) (Timeout d)))
                              (enumerate (Suc i) ds)))"
      using Cons.IH [of "pre @ [d]" "Suc i" "i # del" "fin @ [d]"] by blast
    have "delete_all (i # del) (pre @ [d]) = delete_all del pre"
      using Cons.prems(1) remove_at_last [of pre d] by simp
    with r' r have "r' = r" by simp
    with r' r True show ?thesis by simp
  next
    case False
    have "\<forall>j \<in> set del. j < Suc i" using Cons.prems by auto
    moreover have "length (pre @ [d]) = Suc i" using Cons.prems by simp
    ultimately obtain r' where r': "delete_all del (pre @ [d]) = Some r'"
      "delete_all (fst (cleanup_scan clock (Suc i) ds del fin)) ((pre @ [d]) @ ds) =
         Some (r' @ map snd (filter (\<lambda>(j, d). \<not> Time_After (clock j) (Time_Add (Start d) (Timeout d)))
                              (enumerate (Suc i) ds)))"
      using Cons.IH [of "pre @ [d]" "Suc i" del fin] Cons.prems(2) by blast
    with r have "r' = r @ [d]" by simp
    with r' r False show ?thesis by simp
  qed
qed

lemma cleanup_eq:
  "cleanup clock adm =
     Some (adm\<lparr>doneCalls := doneCalls adm @
                  map snd (filter (\<lambda>(i, d). Time_After (clock i) (Time_Add (Start d) (Timeout d)))
                             (enumerate 0 (activeDumps adm))),
               activeDumps :=
                  map snd (filter (\<lambda>(i, d). \<not> Time_After (clock i) (Time_Add (Start d) (Timeout d)))
                             (enumerate 0 (activeDumps adm)))\<rparr>)"
proof -
  obtain del fin where scan: "cleanup_scan clock 0 (activeDumps adm) [] [] = (del, fin)"
    by (cases "cleanup_scan clock 0 (activeDumps adm) [] []")
  have fin: "fin = map snd (filter (\<lambda>(i, d). Time_After (clock i) (Time_Add (Start d) (Timeout d)))
                             (enumerate 0 (activeDumps adm)))"
    using cleanup_scan_finalized [of clock 0 "activeDumps adm" "[]" "[]"] scan by simp
  have "delete_all del (activeDumps adm) =
     Some (map snd (filter (\<lambda>(i, d). \<not> Time_After (clock i) (Time_Add (Start d) (Timeout d)))
                             (enumerate 0 (activeDumps adm))))"
    using cleanup_scan_delete [of "[]" 0 "[]" clock "activeDumps adm" "[]"] scan by simp
  with scan fin show ?thesis by (simp add: cleanup_def)
qed

lemma filter_enumerate_const:
  "map snd (filter (\<lambda>(i, d). P d) (enumerate n xs)) = filter P xs"
  by (induction xs arbitrary: n) simp_all

section \<open>The order of ancestry seeding\<close>

lemma offered_seed_node: "offered (seed_node foc sd parent) = offered sd @ [parent]"
  by (simp add: seed_node_def split: option.splits)

lemma offered_foldl_seed_node: "offered (foldl (seed_node foc) sd xs) = offered sd @ xs"
  by (induction xs arbitrary: sd) (simp_all add: offered_seed_node)

lemma offered_callback:
  "offered (SearchTracedProcessCacheEntryCallback foc entry sd) = offered sd @ compute_ancestors entry"
  by (simp add: SearchTracedProcessCacheEntryCallback_def offered_foldl_seed_node)

lemma offered_Walk:
  "offered (Walk cache (SearchTracedProcessCacheEntryCallback foc) sd) =
     offered sd @ concat (map compute_ancestors cache)"
  unfolding Walk_def
  by (induction cache arbitrary: sd) (simp_all add: offered_callback)

text \<open>Each element but the first has its parent right before it.\<close>

lemma ancestors_loop_chain:
  assumes "acc \<noteq> []" "GetNextAncestorNoFork (hd acc) = anc"
    and "\<And>pre c post. acc = pre @ c # post \<Longrightarrow> pre \<noteq> [] \<Longrightarrow> GetNextAncestorNoFork c = Some (last pre)"
  shows "GetNextAncestorNoFork (hd (ancestors_loop anc acc)) = None
       \<and> (\<exists>pre. ancestors_loop anc acc = pre @ acc)
       \<and> (\<forall>pre c post. ancestors_loop anc acc = pre @ c # post \<longrightarrow> pre \<noteq> [] \<longrightarrow>
             GetNextAncestorNoFork c = Some (last pre))"
  using assms
proof (induction anc acc rule: ancestors_loop.induct)
  case (1 ancestors)
  then show ?case by auto
next
  case (2 pid anc ancestors)
  let ?x = "ProcessCacheEntry pid anc"
  have a: "?x # ancestors \<noteq> []" by simp
  have b: "GetNextAncestorNoFork (hd (?x # ancestors)) = anc"
    by (simp add: GetNextAncestorNoFork_def)
  have c: "GetNextAncestorNoFork c = Some (last pre)"
    if eq: "?x # ancestors = pre @ c # post" and ne: "pre \<noteq> []" for pre c post
  proof -
    from eq ne obtain pre' where pre: "pre = ?x # pre'" and rest: "ancestors = pre' @ c # post"
      by (cases pre) auto
    show ?thesis
    proof (cases "pre' = []")
      case True
      with rest have "hd ancestors = c" by simp
      with "2.prems"(2) have "GetNextAncestorNoFork c = Some ?x" by simp
      with pre True show ?thesis by simp
    next
      case False
      with "2.prems"(3) [OF rest] pre show ?thesis by simp
    qed
  qed
  have "GetNextAncestorNoFork (hd (ancestors_loop anc (?x # ancestors))) = None
       \<and> (\<exists>pre. ancestors_loop anc (?x # ancestors) = pre @ ?x # ancestors)
       \<and> (\<forall>pre c post. ancestors_loop anc (?x # ancestors) = pre @ c # post \<longrightarrow> pre \<noteq> [] \<longrightarrow>
             GetNextAncestorNoFork c = Some (last pre))"
  proof (rule "2.IH" [OF a b])
    fix pre c post
    assume "?x # ancestors = pre @ c # post" "pre \<noteq> []"
    then show "GetNextAncestorNoFork c = Some (last pre)" by (rule c)
  qed
  then obtain pre0 where
    h: "GetNextAncestorNoFork (hd (ancestors_loop anc (?x # ancestors))) = None"
       "ancestors_loop anc (?x # ancestors) = pre0 @ ?x # ancestors"
       "\<forall>pre c post. ancestors_loop anc (?x # ancestors) = pre @ c # post \<longrightarrow> pre \<noteq> [] \<longrightarrow>
             GetNextAncestorNoFork c = Some (last pre)"
    by blast
  have eq: "ancestors_loop (Some ?x) ancestors = ancestors_loop anc (?x # ancestors)" by simp
  show ?case unfolding eq
  proof (intro conjI)
    show "GetNextAncestorNoFork (hd (ancestors_loop anc (?x # ancestors))) = None" by (rule h(1))
    show "\<exists>pre. ancestors_loop anc (?x # ancestors) = pre @ ancestors"
      using h(2) by (intro exI [of _ "pre0 @ [?x]"]) simp
    show "\<forall>pre c post. ancestors_loop anc (?x # ancestors) = pre @ c # post \<longrightarrow> pre \<noteq> [] \<longrightarrow>
             GetNextAncestorNoFork c = Some (last pre)" by (rule h(3))
  qed
qed

lemma compute_ancestors_chain:
  "GetNextAncestorNoFork (hd (compute_ancestors entry)) = None"
  "compute_ancestors entry \<noteq> []"
  "last (compute_ancestors entry) = entry"
  "compute_ancestors entry = pre @ c # post \<Longrightarrow> pre \<noteq> [] \<Longrightarrow> GetNextAncestorNoFork c = Some (last pre)"
proof -
  have "GetNextAncestorNoFork (hd (ancestors_loop (GetNextAncestorNoFork entry) [entry])) = None
       \<and> (\<exists>pre. ancestors_loop (GetNextAncestorNoFork entry) [entry] = pre @ [entry])
       \<and> (\<forall>pre c post. ancestors_loop (GetNextAncestorNoFork entry) [entry] = pre @ c # post \<longrightarrow> pre \<noteq> [] \<longrightarrow>
             GetNextAncestorNoFork c = Some (last pre))"
    by (rule ancestors_loop_chain) (auto simp: Cons_eq_append_conv)
  then show "GetNextAncestorNoFork (hd (compute_ancestors entry)) = None"
    "compute_ancestors entry \<noteq> []"
    "last (compute_ancestors entry) = entry"
    "compute_ancestors entry = pre @ c # post \<Longrightarrow> pre \<noteq> [] \<Longrightarrow> GetNextAncestorNoFork c = Some (last pre)"
    unfolding compute_ancestors_def by auto
qed

text \<open>Sizes fall along the list, so no entry occurs twice.\<close>

lemma size_ancestor: "GetNextAncestorNoFork c = Some p \<Longrightarrow> size p < size c"
  by (cases c) (auto simp: GetNextAncestorNoFork_def)

lemma ancestors_loop_sizes:
  assumes "acc \<noteq> []" "GetNextAncestorNoFork (hd acc) = anc" "sorted_wrt (\<lambda>a b. size a < size b) acc"
  shows "sorted_wrt (\<lambda>a b. size a < size b) (ancestors_loop anc acc)"
  using assms
proof (induction anc acc rule: ancestors_loop.induct)
  case (1 ancestors)
  then show ?case by simp
next
  case (2 pid anc ancestors)
  let ?x = "ProcessCacheEntry pid anc"
  have hd: "size ?x < size (hd ancestors)"
    by (rule size_ancestor) (use "2.prems" in simp)
  have "\<forall>y \<in> set ancestors. size ?x < size y"
  proof
    fix y assume y: "y \<in> set ancestors"
    from "2.prems"(1) obtain h t where ht: "ancestors = h # t" by (cases ancestors) auto
    with "2.prems"(3) y have "size h \<le> size y" by auto
    with hd ht show "size ?x < size y" by simp
  qed
  with "2.prems"(3) have "sorted_wrt (\<lambda>a b. size a < size b) (?x # ancestors)" by simp
  then show ?case using "2.IH" by (simp add: GetNextAncestorNoFork_def)
qed

lemma sorted_wrt_size_distinct: "sorted_wrt (\<lambda>a b. size a < size b) xs \<Longrightarrow> distinct xs"
  by (induction xs) auto

lemma distinct_compute_ancestors: "distinct (compute_ancestors entry)"
  unfolding compute_ancestors_def
  by (rule sorted_wrt_size_distinct, rule ancestors_loop_sizes) simp_all

lemma nodeLookups_insertActivityDump:
  assumes "\<not> (ContainerID d \<noteq> [] \<and> (\<exists>x \<in> set (activeDumps adm). ContainerID x = ContainerID d))"
    and "\<not> (Comm d \<noteq> [] \<and> (\<exists>x \<in> set (activeDumps adm). Comm x = Comm d))"
  shows "nodeLookups (snd (insertActivityDump cfg env adm d)) =
     nodeLookups adm @ map (Pair d) (concat (map compute_ancestors (processCache env)))"
  by (simp add: insertActivityDump_fresh [OF assms] offered_Walk)

lemma parent_before_child:
  assumes i: "i < length (compute_ancestors entry)" and j: "j < length (compute_ancestors entry)"
    and p: "GetNextAncestorNoFork (compute_ancestors entry ! j) = Some (compute_ancestors entry ! i)"
  shows "i < j"
proof -
  let ?a = "compute_ancestors entry"
  have "j \<noteq> 0"
  proof
    assume "j = 0"
    with p compute_ancestors_chain(1,2) [of entry] show False by (simp add: hd_conv_nth)
  qed
  then obtain k where k: "j = Suc k" by (cases j) auto
  have split: "?a = take j ?a @ ?a ! j # drop (Suc j) ?a"
    using j by (rule id_take_nth_drop)
  have ne: "take j ?a \<noteq> []" using j k compute_ancestors_chain(2) [of entry] by simp
  have "GetNextAncestorNoFork (?a ! j) = Some (last (take j ?a))"
    using split ne by (rule compute_ancestors_chain(4))
  also have "last (take j ?a) = ?a ! k"
    using j k by (simp add: take_Suc_conv_app_nth)
  finally have "?a ! i = ?a ! k" using p by simp
  with distinct_compute_ancestors [of entry] i j k have "i = k"
    by (simp add: nth_eq_iff_index_eq)
  with k show ?thesis by simp
qed

section \<open>Stopping a dump and the invariants of the registry\<close>

lemma find_comm_None: "(find_comm comm i ds = None) = (\<forall>d \<in> set ds. Comm d \<noteq> comm)"
  by (induction ds arbitrary: i) (auto simp: CommMatches_def)

lemma find_comm_first:
  "\<forall>x \<in> set pre. Comm x \<noteq> comm \<Longrightarrow> Comm d = comm \<Longrightarrow>
   find_comm comm i (pre @ d # post) = Some (i + length pre, d)"
  by (induction pre arbitrary: i) (auto simp: CommMatches_def)

lemma StopActivityDump_found:
  assumes "activeDumps adm = pre @ d # post" "\<forall>x \<in> set pre. Comm x \<noteq> comm" "Comm d = comm"
  shows "StopActivityDump adm comm =
     Some (\<lparr>StoppedError = None\<rparr>, None,
           adm\<lparr>doneCalls := doneCalls adm @ [d],
               logged := logged adm @ [Infof (TracingStopped d)],
               activeDumps := pre @ post\<rparr>)"
  using assms find_comm_first [of pre comm d 0 post]
  by (simp add: StopActivityDump_def remove_at_def)

lemma StopActivityDump_missing:
  assumes "\<forall>x \<in> set (activeDumps adm). Comm x \<noteq> comm"
  shows "StopActivityDump adm comm =
     Some (\<lparr>StoppedError = Some (NoActivityDumpWithComm comm)\<rparr>,
           Some (NoActivityDumpWithComm comm), adm)"
  using assms find_comm_None [of comm 0 "activeDumps adm"]
  by (simp add: StopActivityDump_def Let_def)

text \<open>Every list of dumps has a first match for a Comm, or none.\<close>

lemma first_match_cases:
  "(\<forall>x \<in> set ds. Comm x \<noteq> comm)
   \<or> (\<exists>pre d post. ds = pre @ d # post \<and> (\<forall>x \<in> set pre. Comm x \<noteq> comm) \<and> Comm d = comm)"
proof (cases "\<forall>x \<in> set ds. Comm x \<noteq> comm")
  case True
  then show ?thesis by simp
next
  case False
  then have "\<exists>x \<in> set ds. Comm x = comm" by simp
  then obtain pre d post where "ds = pre @ d # post" "Comm d = comm" "\<forall>x \<in> set pre. Comm x \<noteq> comm"
    using split_list_first_prop [of ds "\<lambda>x. Comm x = comm"] by blast
  then show ?thesis by blast
qed

lemma distinct_subseq: "subseq xs ys \<Longrightarrow> distinct ys \<Longrightarrow> distinct xs"
  by (auto simp: subseq_conv_nths intro: distinct_nthsI)

lemma unique_subseq:
  assumes "subseq xs ys"
  shows "unique_ContainerID ys \<Longrightarrow> unique_ContainerID xs" "unique_Comm ys \<Longrightarrow> unique_Comm xs"
  using assms unfolding unique_ContainerID_def unique_Comm_def
  by (blast intro: distinct_subseq subseq_filter subseq_map)+

lemma subseq_survivors: "subseq (map snd (filter P (enumerate n xs))) xs"
proof -
  have "subseq (map snd (filter P (enumerate n xs))) (map snd (enumerate n xs))"
    by (rule subseq_map) simp
  then show ?thesis by (simp add: enumerate_eq_zip)
qed

lemma registry_ok_cleanup:
  "registry_ok adm \<Longrightarrow> \<exists>adm'. cleanup clock adm = Some adm' \<and> registry_ok adm'"
  unfolding cleanup_eq registry_ok_def
  using unique_subseq [OF subseq_survivors] by auto

lemma subseq_remove: "subseq (pre @ post) (pre @ d # post)"
  by (auto simp: subseq_append' intro: list_emb_Cons)

lemma registry_ok_StopActivityDump:
  assumes "registry_ok adm"
  shows "\<exists>msg err adm'. StopActivityDump adm comm = Some (msg, err, adm') \<and> registry_ok adm'"
  using first_match_cases [of "activeDumps adm" comm]
proof
  assume "\<forall>x \<in> set (activeDumps adm). Comm x \<noteq> comm"
  then show ?thesis using assms by (simp add: StopActivityDump_missing)
next
  assume "\<exists>pre d post. activeDumps adm = pre @ d # post \<and> (\<forall>x \<in> set pre. Comm x \<noteq> comm) \<and> Comm d = comm"
  then obtain pre d post where h: "activeDumps adm = pre @ d # post"
    "\<forall>x \<in> set pre. Comm x \<noteq> comm" "Comm d = comm" by blast
  have "unique_ContainerID (pre @ post)" "unique_Comm (pre @ post)"
    using assms h(1) unique_subseq [OF subseq_remove [of pre post d]]
    by (simp_all add: registry_ok_def)
  then show ?thesis by (simp add: StopActivityDump_found [OF h] registry_ok_def)
qed

section \<open>The registry under the triggers and the read-only operations\<close>

lemma registry_ok_same: "activeDumps a = activeDumps b \<Longrightarrow> registry_ok a = registry_ok b"
  by (simp add: registry_ok_def)

lemma registry_ok_HandleCgroupTracingEvent:
  assumes "registry_ok adm"
  shows "registry_ok (HandleCgroupTracingEvent cfg fresh factoryErr resolveMono cbNow env adm event)"
proof (cases factoryErr)
  case (Some e)
  then show ?thesis using assms
    by (simp add: HandleCgroupTracingEvent_def NewActivityDump_def registry_ok_def)
next
  case None
  let ?nd = "fresh\<lparr>ContainerID := ContainerContext_ID event,
                    Timeout := Time_Sub (resolveMono (TimeoutRaw event)) cbNow,
                    DifferentiateArgs := True, WithGraph := True\<rparr>"
  obtain adm' where r: "insertActivityDump cfg env adm ?nd = (None, adm')"
    using fst_insertActivityDump [of cfg env adm ?nd]
    by (cases "insertActivityDump cfg env adm ?nd") auto
  have "registry_ok adm'"
    using registry_ok_insertActivityDump [OF assms, of cfg env ?nd] r by simp
  then show ?thesis using None r
    by (simp add: HandleCgroupTracingEvent_def NewActivityDump_def registry_ok_def)
qed

lemma registry_ok_DumpActivity:
  assumes "registry_ok adm"
  shows "registry_ok (snd (snd (DumpActivity cfg fresh factoryErr env adm params)))"
proof (cases factoryErr)
  case (Some e)
  then show ?thesis using assms
    by (simp add: DumpActivity_def NewActivityDump_def registry_ok_def Let_def)
next
  case None
  let ?nd = "fresh\<lparr>Comm := p_Comm params, Timeout := p_Timeout params * Minute,
                    DifferentiateArgs := p_DifferentiateArgs params,
                    WithGraph := p_WithGraph params\<rparr>"
  obtain adm' where r: "insertActivityDump cfg env adm ?nd = (None, adm')"
    using fst_insertActivityDump [of cfg env adm ?nd]
    by (cases "insertActivityDump cfg env adm ?nd") auto
  have "registry_ok adm'"
    using registry_ok_insertActivityDump [OF assms, of cfg env ?nd] r by simp
  then show ?thesis using None r
    by (simp add: DumpActivity_def NewActivityDump_def registry_ok_def)
qed

lemma activeDumps_SendStats: "activeDumps (snd (SendStats dumpSendStats gaugeErr adm)) = activeDumps adm"
  by (simp add: SendStats_def Let_def split: prod.splits option.splits)

lemma GenerateProfile_files_only:
  "\<exists>fs. snd (snd (GenerateProfile genv adm path)) = adm\<lparr>files := fs\<rparr>"
proof -
  have "\<exists>fs. adm = adm\<lparr>files := fs\<rparr>"
    by (rule exI [of _ "files adm"]) simp
  then show ?thesis
    by (auto simp: GenerateProfile_def profile_failed_def Let_def
        split: sum.splits option.splits prod.splits)
qed

lemma activeDumps_GenerateProfile:
  "activeDumps (snd (snd (GenerateProfile genv adm path))) = activeDumps adm"
  using GenerateProfile_files_only [of genv adm path] by auto

lemma activeDumps_NewActivityDumpManager:
  "NewActivityDumpManager cfg tp tc wl tet errs tcg fs = Inr adm0 \<Longrightarrow>
   activeDumps adm0 = [] \<and> snapshotQueue adm0 = [] \<and> snapshotQueueCap adm0 = 100"
  by (auto simp: NewActivityDumpManager_def split: getmap_result.splits sum.splits)

section \<open>What an insertion leaves alone\<close>

lemma insertActivityDump_cases:
  "insertActivityDump cfg env adm d = (None, adm)
   \<or> (\<exists>puts logs nodes pids queue.
        insertActivityDump cfg env adm d =
          (None, adm\<lparr>filterStore := puts, logged := logs, nodeLookups := nodes,
                      tracedPidUpdates := pids, snapshotQueue := queue,
                      activeDumps := activeDumps adm @ [d]\<rparr>))"
proof (cases "(ContainerID d \<noteq> [] \<and> (\<exists>x \<in> set (activeDumps adm). ContainerID x = ContainerID d))
      \<or> (Comm d \<noteq> [] \<and> (\<exists>x \<in> set (activeDumps adm). Comm x = Comm d))")
  case True
  then show ?thesis by (simp add: insertActivityDump_conflict)
next
  case False
  then have "\<not> (ContainerID d \<noteq> [] \<and> (\<exists>x \<in> set (activeDumps adm). ContainerID x = ContainerID d))"
    "\<not> (Comm d \<noteq> [] \<and> (\<exists>x \<in> set (activeDumps adm). Comm x = Comm d))" by blast+
  from insertActivityDump_fresh [OF this, of cfg env] show ?thesis by blast
qed

lemma untouched_by_insertActivityDump:
  "closeCalls (snd (insertActivityDump cfg env adm d)) = closeCalls adm"
  "doneCalls (snd (insertActivityDump cfg env adm d)) = doneCalls adm"
  "snapshotQueueCap (snd (insertActivityDump cfg env adm d)) = snapshotQueueCap adm"
  "files (snd (insertActivityDump cfg env adm d)) = files adm"
  using insertActivityDump_cases [of cfg env adm d] by auto

lemma ex_full_fresh:
  "\<not> (ContainerID ex_curl \<noteq> [] \<and> (\<exists>x \<in> set (activeDumps ex_full). ContainerID x = ContainerID ex_curl))"
  "\<not> (Comm ex_curl \<noteq> [] \<and> (\<exists>x \<in> set (activeDumps ex_full). Comm x = Comm ex_curl))"
  by (simp_all add: ex_full_def ex_empty_def ex_curl_def)

lemma ex_full_queue:
  "snapshotQueueCap ex_full = 100" "length (snapshotQueue ex_full) = 100"
  "activeDumps ex_full = []" "logged ex_full = []"
  by (simp_all add: ex_full_def ex_empty_def)

lemma ex_env_no_errors: "waitListPutErr ex_env = None" "tracedCommsPutErr ex_env = None"
  by (simp_all add: ex_env_def)

lemma ex_adm_fresh_other:
  "\<not> (ContainerID ex_other \<noteq> [] \<and> (\<exists>x \<in> set (activeDumps ex_adm). ContainerID x = ContainerID ex_other))"
  "\<not> (Comm ex_other \<noteq> [] \<and> (\<exists>x \<in> set (activeDumps ex_adm). Comm x = Comm ex_other))"
  by (simp_all add: ex_adm_def ex_empty_def ex_other_def ex_curl_def ex_container_def)

lemma ex_adm_fresh_nginx:
  "\<not> (ContainerID ex_nginx \<noteq> [] \<and> (\<exists>x \<in> set (activeDumps ex_adm). ContainerID x = ContainerID ex_nginx))"
  "\<not> (Comm ex_nginx \<noteq> [] \<and> (\<exists>x \<in> set (activeDumps ex_adm). Comm x = Comm ex_nginx))"
  by (simp_all add: ex_adm_def ex_empty_def ex_nginx_def ex_curl_def ex_container_def)

lemma ex_adm_fields:
  "activeDumps ex_adm = [ex_container, ex_curl]" "logged ex_adm = []" "filterStore ex_adm = []"
  "closeCalls ex_adm = []" "doneCalls ex_adm = []" "snapshotQueue ex_adm = []"
  "snapshotQueueCap ex_adm = 100"
  by (simp_all add: ex_adm_def ex_empty_def)

lemma ex_env_failing_errors:
  "waitListPutErr ex_env_failing = Some (External ''EPERM'')"
  "tracedCommsPutErr ex_env_failing = Some (External ''EPERM'')"
  by (simp_all add: ex_env_failing_def)

section \<open>Writes to the kernel maps\<close>

lemma Duration_product_exact:
  fixes a b :: Duration
  assumes "- (2 ^ 63) \<le> sint a * sint b" "sint a * sint b < 2 ^ 63"
  shows "Time_Add t (a * b) = t + sint a * sint b"
proof -
  have "sint (a * b) = signed_take_bit 63 (sint a * sint b)"
    by (simp add: sint_word_ariths)
  also have "\<dots> = sint a * sint b"
    using assms by (simp add: signed_take_bit_int_eq_self)
  finally show ?thesis by (simp add: Time_Add_def)
qed

lemma filterStore_StopActivityDump:
  "\<exists>msg err adm'. StopActivityDump adm comm = Some (msg, err, adm') \<and> filterStore adm' = filterStore adm"
  using first_match_cases [of "activeDumps adm" comm]
proof
  assume "\<forall>x \<in> set (activeDumps adm). Comm x \<noteq> comm"
  then show ?thesis by (simp add: StopActivityDump_missing)
next
  assume "\<exists>pre d post. activeDumps adm = pre @ d # post \<and> (\<forall>x \<in> set pre. Comm x \<noteq> comm) \<and> Comm d = comm"
  then obtain pre d post where h: "activeDumps adm = pre @ d # post"
    "\<forall>x \<in> set pre. Comm x \<noteq> comm" "Comm d = comm" by blast
  show ?thesis by (simp add: StopActivityDump_found [OF h])
qed

lemma filterStore_cleanup:
  "\<exists>adm'. cleanup clock adm = Some adm' \<and> filterStore adm' = filterStore adm"
  by (simp add: cleanup_eq)

lemma filterStore_SendStats: "filterStore (snd (SendStats dumpSendStats gaugeErr adm)) = filterStore adm"
  by (simp add: SendStats_def Let_def split: prod.splits option.splits)

lemma filterStore_GenerateProfile:
  "filterStore (snd (snd (GenerateProfile genv adm path))) = filterStore adm"
  using GenerateProfile_files_only [of genv adm path] by auto

lemma filterStore_receive_snapshot: "filterStore (receive_snapshot snapshot adm) = filterStore adm"
  by (simp add: receive_snapshot_def Let_def split: list.splits option.splits)

lemma ex_cfg_product:
  "- (2 ^ 63) \<le> sint (ActivityDumpCgroupsWaitListSize ex_cfg) * sint (ActivityDumpDefaultDumpTimeout ex_cfg)"
  "sint (ActivityDumpCgroupsWaitListSize ex_cfg) * sint (ActivityDumpDefaultDumpTimeout ex_cfg) < 2 ^ 63"
  by (simp_all add: ex_cfg_def)

lemma ex_adm_duplicate_curl:
  "(ContainerID ex_curl \<noteq> [] \<and> (\<exists>x \<in> set (activeDumps ex_adm). ContainerID x = ContainerID ex_curl))
      \<or> (Comm ex_curl \<noteq> [] \<and> (\<exists>x \<in> set (activeDumps ex_adm). Comm x = Comm ex_curl))"
  by (simp add: ex_adm_def ex_empty_def ex_curl_def)

section \<open>The triggers when the factory succeeds\<close>

lemma insertActivityDump_pair:
  "insertActivityDump cfg env adm d = (None, snd (insertActivityDump cfg env adm d))"
  using fst_insertActivityDump [of cfg env adm d]
  by (cases "insertActivityDump cfg env adm d") simp

lemma DumpActivity_factory_ok:
  assumes "nd = fresh\<lparr>Comm := p_Comm params, Timeout := p_Timeout params * Minute,
                      DifferentiateArgs := p_DifferentiateArgs params,
                      WithGraph := p_WithGraph params\<rparr>"
  shows "DumpActivity cfg fresh None env adm params =
    (DumpMetadata nd, None,
     (snd (insertActivityDump cfg env adm nd))
       \<lparr>logged := logged (snd (insertActivityDump cfg env adm nd)) @ [Infof (TracingStarted nd)]\<rparr>)"
  unfolding DumpActivity_def NewActivityDump_def assms [symmetric]
  by (subst insertActivityDump_pair) simp

lemma HandleCgroupTracingEvent_factory_ok:
  assumes "nd = fresh\<lparr>ContainerID := ContainerContext_ID event,
                      Timeout := Time_Sub (resolveMono (TimeoutRaw event)) cbNow,
                      DifferentiateArgs := True, WithGraph := True\<rparr>"
  shows "HandleCgroupTracingEvent cfg fresh None resolveMono cbNow env adm event =
     (snd (insertActivityDump cfg env adm nd))
       \<lparr>logged := logged (snd (insertActivityDump cfg env adm nd)) @ [Infof (TracingStarted nd)]\<rparr>"
  unfolding HandleCgroupTracingEvent_def NewActivityDump_def assms [symmetric]
  by (subst insertActivityDump_pair) simp

lemma closeCalls_HandleCgroupTracingEvent:
  "closeCalls (HandleCgroupTracingEvent cfg fresh factoryErr resolveMono cbNow env adm event)
     = closeCalls adm"
proof (cases factoryErr)
  case None
  show ?thesis unfolding None
    by (subst HandleCgroupTracingEvent_factory_ok [OF refl])
       (simp add: untouched_by_insertActivityDump)
next
  case (Some e)
  then show ?thesis by (simp add: HandleCgroupTracingEvent_def NewActivityDump_def)
qed

section \<open>The loop of SendStats\<close>

lemma send_dump_stats_all_ok:
  "\<forall>x \<in> set dumps. f x = None \<Longrightarrow> send_dump_stats f dumps asked = (None, asked @ dumps)"
  by (induction dumps arbitrary: asked) simp_all

lemma send_dump_stats_first_failure:
  "\<forall>x \<in> set pre. f x = None \<Longrightarrow> f d = Some e \<Longrightarrow>
   send_dump_stats f (pre @ d # post) asked = (Some (CouldntSendMetricsFor d e), asked @ pre @ [d])"
  by (induction pre arbitrary: asked) simp_all

section \<open>Profile generation and the file system\<close>

lemma GenerateProfile_success:
  assumes "openErr env = None" "files adm src = Some f" "readErr env = None"
    "Unmarshal env (content f) = Inr dump" "tempFile env = Inr rnd"
    "files adm (''/tmp/profile-'' @ rnd) = None" "chmodErr env = None" "executeErr env = None"
  shows "GenerateProfile env adm src =
     (\<lparr>ProfilePath = ''/tmp/profile-'' @ rnd, ProfileError = None\<rparr>, None,
      adm\<lparr>files := (files adm)(''/tmp/profile-'' @ rnd \<mapsto>
              \<lparr>content = execute_profileTmpl (GenerateProfileData env dump), mode = mode_0400\<rparr>)\<rparr>)"
  using assms
  by (simp add: GenerateProfile_def os_Open_def ioutil_TempFile_def Let_def)

lemma GenerateProfile_error_iff:
  "(fst (snd (GenerateProfile env adm src)) = None) =
     (openErr env = None
      \<and> (\<exists>f. files adm src = Some f \<and> (\<exists>dump. Unmarshal env (content f) = Inr dump))
      \<and> readErr env = None
      \<and> (\<exists>rnd. tempFile env = Inr rnd \<and> files adm (''/tmp/profile-'' @ rnd) = None)
      \<and> chmodErr env = None \<and> executeErr env = None)"
  by (auto simp: GenerateProfile_def os_Open_def ioutil_TempFile_def profile_failed_def Let_def
      split: sum.splits option.splits prod.splits)

lemma GenerateProfile_error_reported:
  "fst (snd (GenerateProfile env adm src)) = Some e \<Longrightarrow>
   fst (GenerateProfile env adm src) = \<lparr>ProfilePath = [], ProfileError = Some e\<rparr>"
  by (auto simp: GenerateProfile_def profile_failed_def Let_def
      split: sum.splits option.splits prod.splits)

lemma GenerateProfile_keeps_files:
  "files adm p = Some g \<Longrightarrow> files (snd (snd (GenerateProfile env adm src))) p = Some g"
  by (auto simp: GenerateProfile_def os_Open_def ioutil_TempFile_def profile_failed_def Let_def
      split: sum.splits option.splits prod.splits)

section \<open>The claims\<close>

text \<open>
  C2, as amended. A run of \<open>cleanup\<close> finalizes and removes exactly the active dumps whose
  expiry instant Start + Timeout lies strictly before the reading of the clock taken for
  them; the dumps that stay keep their relative order, and no slice expression leaves its
  range. With one reading \<open>t\<close> for the whole run: the dumps with Start + Timeout < t go,
  those with t \<le> Start + Timeout stay.
\<close>

theorem cleanup_removes_dumps_past_expiry:
  "cleanup clock adm =
     Some (adm\<lparr>doneCalls := doneCalls adm @
                  map snd (filter (\<lambda>(i, d). Time_Add (Start d) (Timeout d) < clock i)
                             (enumerate 0 (activeDumps adm))),
               activeDumps :=
                  map snd (filter (\<lambda>(i, d). clock i \<le> Time_Add (Start d) (Timeout d))
                             (enumerate 0 (activeDumps adm)))\<rparr>)
   \<and> cleanup (\<lambda>i. t) adm =
     Some (adm\<lparr>doneCalls := doneCalls adm @
                  filter (\<lambda>d. Time_Add (Start d) (Timeout d) < t) (activeDumps adm),
               activeDumps := filter (\<lambda>d. t \<le> Time_Add (Start d) (Timeout d)) (activeDumps adm)\<rparr>)"
proof -
  have gen: "cleanup c adm =
     Some (adm\<lparr>doneCalls := doneCalls adm @
                  map snd (filter (\<lambda>(i, d). Time_Add (Start d) (Timeout d) < c i)
                             (enumerate 0 (activeDumps adm))),
               activeDumps :=
                  map snd (filter (\<lambda>(i, d). c i \<le> Time_Add (Start d) (Timeout d))
                             (enumerate 0 (activeDumps adm)))\<rparr>)" for c
    using cleanup_eq [of c adm] by (simp add: Time_After_def not_less)
  show ?thesis
    using gen [of clock] gen [of "\<lambda>i. t"] by (simp add: filter_enumerate_const)
qed

text \<open>
  C2, as stated, fails: at the clock reading 10 the dump \<open>ex_curl\<close> has reached its expiry
  instant 0 + 10, and \<open>cleanup\<close> neither finalizes nor removes it.
\<close>

theorem cleanup_keeps_dump_expiring_now:
  "Time_Add (Start ex_curl) (Timeout ex_curl) \<le> ex_clock 1
   \<and> activeDumps ex_adm = [ex_container, ex_curl]
   \<and> cleanup ex_clock ex_adm = Some (ex_adm\<lparr>doneCalls := [ex_container], activeDumps := [ex_curl]\<rparr>)"
  by (simp add: cleanup_def remove_at_def Time_After_def Time_Add_def ex_clock_def ex_adm_def
      ex_empty_def ex_curl_def ex_container_def)

text \<open>
  C3. The callback hands the chain of a process to the tree of the dump in the order of
  \<open>compute_ancestors\<close>: that list starts at the root, ends with the process itself, has each
  other element right after its parent, and holds no entry twice, so a parent is always
  handed over strictly before its child. An insertion that is not ignored seeds the new
  dump with these chains, one for every entry of the process cache.
\<close>

theorem seeding_is_root_first:
  "offered (SearchTracedProcessCacheEntryCallback findOrCreate entry sd)
     = offered sd @ compute_ancestors entry
   \<and> GetNextAncestorNoFork (hd (compute_ancestors entry)) = None
   \<and> last (compute_ancestors entry) = entry
   \<and> distinct (compute_ancestors entry)
   \<and> (\<forall>pre c post. compute_ancestors entry = pre @ c # post \<longrightarrow> pre \<noteq> [] \<longrightarrow>
         GetNextAncestorNoFork c = Some (last pre))
   \<and> (\<forall>i j. i < length (compute_ancestors entry) \<longrightarrow> j < length (compute_ancestors entry) \<longrightarrow>
         GetNextAncestorNoFork (compute_ancestors entry ! j) = Some (compute_ancestors entry ! i) \<longrightarrow>
         i < j)
   \<and> (\<not> (ContainerID newDump \<noteq> [] \<and> (\<exists>x \<in> set (activeDumps adm). ContainerID x = ContainerID newDump)) \<longrightarrow>
      \<not> (Comm newDump \<noteq> [] \<and> (\<exists>x \<in> set (activeDumps adm). Comm x = Comm newDump)) \<longrightarrow>
        nodeLookups (snd (insertActivityDump cfg env adm newDump)) =
          nodeLookups adm @ map (Pair newDump) (concat (map compute_ancestors (processCache env))))"
proof (intro conjI allI impI)
  show "offered (SearchTracedProcessCacheEntryCallback findOrCreate entry sd)
     = offered sd @ compute_ancestors entry" by (rule offered_callback)
  show "GetNextAncestorNoFork (hd (compute_ancestors entry)) = None"
    by (rule compute_ancestors_chain(1))
  show "last (compute_ancestors entry) = entry" by (rule compute_ancestors_chain(3))
  show "distinct (compute_ancestors entry)" by (rule distinct_compute_ancestors)
next
  fix pre c post
  assume "compute_ancestors entry = pre @ c # post" "pre \<noteq> []"
  then show "GetNextAncestorNoFork c = Some (last pre)" by (rule compute_ancestors_chain(4))
next
  fix i j
  assume "i < length (compute_ancestors entry)" "j < length (compute_ancestors entry)"
    "GetNextAncestorNoFork (compute_ancestors entry ! j) = Some (compute_ancestors entry ! i)"
  then show "i < j" by (rule parent_before_child)
next
  assume "\<not> (ContainerID newDump \<noteq> [] \<and> (\<exists>x \<in> set (activeDumps adm). ContainerID x = ContainerID newDump))"
    "\<not> (Comm newDump \<noteq> [] \<and> (\<exists>x \<in> set (activeDumps adm). Comm x = Comm newDump))"
  then show "nodeLookups (snd (insertActivityDump cfg env adm newDump)) =
          nodeLookups adm @ map (Pair newDump) (concat (map compute_ancestors (processCache env)))"
    by (rule nodeLookups_insertActivityDump)
qed

theorem seeding_is_root_first_witness:
  "compute_ancestors ex_leaf = [ex_root] @ ex_mid # [ex_leaf]
   \<and> GetNextAncestorNoFork ex_mid = Some ex_root
   \<and> GetNextAncestorNoFork ex_leaf = Some ex_mid
   \<and> offered (SearchTracedProcessCacheEntryCallback (FindOrCreateProcessActivityNode ex_env) ex_leaf
        \<lparr>offered = [], pidTimeouts = []\<rparr>) = [ex_root, ex_mid, ex_leaf]
   \<and> nodeLookups (snd (insertActivityDump ex_cfg ex_env ex_adm ex_nginx)) =
        [(ex_nginx, ex_root), (ex_nginx, ex_mid), (ex_nginx, ex_leaf)]"
proof -
  have a: "compute_ancestors ex_leaf = [ex_root] @ ex_mid # [ex_leaf]"
    by (simp add: compute_ancestors_def GetNextAncestorNoFork_def ex_leaf_def ex_mid_def ex_root_def)
  have b: "compute_ancestors ex_leaf = [ex_root, ex_mid] @ ex_leaf # []"
    using a by simp
  have c: "\<not> (ContainerID ex_nginx \<noteq> [] \<and> (\<exists>x \<in> set (activeDumps ex_adm). ContainerID x = ContainerID ex_nginx))"
    by (simp add: ex_nginx_def)
  have d: "\<not> (Comm ex_nginx \<noteq> [] \<and> (\<exists>x \<in> set (activeDumps ex_adm). Comm x = Comm ex_nginx))"
    by (simp add: ex_nginx_def ex_adm_def ex_empty_def ex_curl_def ex_container_def)
  have e: "nodeLookups ex_adm = []" "processCache ex_env = [ex_leaf]"
    by (simp_all add: ex_adm_def ex_empty_def ex_env_def)
  note t = seeding_is_root_first [of "FindOrCreateProcessActivityNode ex_env" ex_leaf
      "\<lparr>offered = [], pidTimeouts = []\<rparr>" ex_nginx ex_adm ex_cfg ex_env]
  from t have q: "\<forall>pre c post. compute_ancestors ex_leaf = pre @ c # post \<longrightarrow> pre \<noteq> [] \<longrightarrow>
         GetNextAncestorNoFork c = Some (last pre)"
    by (elim conjE)
  have m: "GetNextAncestorNoFork ex_mid = Some ex_root"
    using q [rule_format, OF a] by simp
  have l: "GetNextAncestorNoFork ex_leaf = Some ex_mid"
    using q [rule_format, OF b] by simp
  from t a c d e m l show ?thesis by simp
qed

text \<open>
  C1. An insertion whose candidate has a non-empty ContainerID, or a non-empty Comm, equal
  to that of an active dump returns \<open>nil\<close> and leaves the whole state as it was: the
  registry, the kernel maps, the queue, the log and the dumps. A new manager has an empty
  registry, and every operation of the manager keeps the two invariants: at most one
  active dump for a non-empty ContainerID, at most one for a non-empty Comm.
\<close>

theorem duplicate_insert_ignored_and_registry_unique:
  "((ContainerID newDump \<noteq> [] \<and> (\<exists>x \<in> set (activeDumps adm). ContainerID x = ContainerID newDump))
      \<or> (Comm newDump \<noteq> [] \<and> (\<exists>x \<in> set (activeDumps adm). Comm x = Comm newDump))
     \<longrightarrow> insertActivityDump cfg env adm newDump = (None, adm))
   \<and> (NewActivityDumpManager cfg tp tc wl tet errs tcg fs = Inr adm0 \<longrightarrow> registry_ok adm0)
   \<and> (registry_ok adm \<longrightarrow>
        registry_ok (snd (insertActivityDump cfg env adm newDump))
      \<and> registry_ok (HandleCgroupTracingEvent cfg fresh factoryErr resolveMono cbNow env adm event)
      \<and> registry_ok (snd (snd (DumpActivity cfg fresh factoryErr env adm params)))
      \<and> (\<exists>msg err adm'. StopActivityDump adm comm = Some (msg, err, adm') \<and> registry_ok adm')
      \<and> (\<exists>adm'. cleanup clock adm = Some adm' \<and> registry_ok adm')
      \<and> registry_ok (ProcessEvent adm ev)
      \<and> registry_ok (resolveTags resolve adm)
      \<and> registry_ok (receive_snapshot snapshot adm)
      \<and> registry_ok (snd (SendStats dumpSendStats gaugeErr adm))
      \<and> registry_ok (snd (snd (GenerateProfile genv adm path))))"
proof (intro conjI impI)
  assume "(ContainerID newDump \<noteq> [] \<and> (\<exists>x \<in> set (activeDumps adm). ContainerID x = ContainerID newDump))
      \<or> (Comm newDump \<noteq> [] \<and> (\<exists>x \<in> set (activeDumps adm). Comm x = Comm newDump))"
  then show "insertActivityDump cfg env adm newDump = (None, adm)"
    by (rule insertActivityDump_conflict)
next
  assume "NewActivityDumpManager cfg tp tc wl tet errs tcg fs = Inr adm0"
  then show "registry_ok adm0"
    using activeDumps_NewActivityDumpManager [of cfg tp tc wl tet errs tcg fs adm0]
    by (simp add: registry_ok_def unique_ContainerID_def unique_Comm_def)
next
  assume ok: "registry_ok adm"
  show "registry_ok (snd (insertActivityDump cfg env adm newDump))"
    using ok by (rule registry_ok_insertActivityDump)
  show "registry_ok (HandleCgroupTracingEvent cfg fresh factoryErr resolveMono cbNow env adm event)"
    using ok by (rule registry_ok_HandleCgroupTracingEvent)
  show "registry_ok (snd (snd (DumpActivity cfg fresh factoryErr env adm params)))"
    using ok by (rule registry_ok_DumpActivity)
  show "\<exists>msg err adm'. StopActivityDump adm comm = Some (msg, err, adm') \<and> registry_ok adm'"
    using ok by (rule registry_ok_StopActivityDump)
  show "\<exists>adm'. cleanup clock adm = Some adm' \<and> registry_ok adm'"
    using ok by (rule registry_ok_cleanup)
  show "registry_ok (ProcessEvent adm ev)"
    using ok by (simp add: registry_ok_def ProcessEvent_def)
  show "registry_ok (resolveTags resolve adm)"
    using ok by (simp add: registry_ok_def resolveTags_def)
  show "registry_ok (receive_snapshot snapshot adm)"
    using ok by (simp add: registry_ok_def receive_snapshot_def Let_def split: list.splits option.splits)
  show "registry_ok (snd (SendStats dumpSendStats gaugeErr adm))"
    using ok by (simp add: registry_ok_def activeDumps_SendStats)
  show "registry_ok (snd (snd (GenerateProfile genv adm path)))"
    using ok by (simp add: registry_ok_def activeDumps_GenerateProfile)
qed


theorem duplicate_insert_ignored_and_registry_unique_witness:
  "Comm ex_curl \<noteq> [] \<and> ex_curl \<in> set (activeDumps ex_adm)
   \<and> insertActivityDump ex_cfg ex_env ex_adm ex_curl = (None, ex_adm)
   \<and> registry_ok ex_adm
   \<and> registry_ok (snd (insertActivityDump ex_cfg ex_env ex_adm ex_nginx))
   \<and> activeDumps (snd (insertActivityDump ex_cfg ex_env ex_adm ex_nginx))
       = [ex_container, ex_curl, ex_nginx]
   \<and> (\<exists>adm'. cleanup ex_clock ex_adm = Some adm' \<and> registry_ok adm')
   \<and> (\<exists>msg err adm'. StopActivityDump ex_adm ''curl'' = Some (msg, err, adm') \<and> registry_ok adm')
   \<and> NewActivityDumpManager ex_cfg Found Found Found Found [] Found Map.empty
       = Inr (ex_empty\<lparr>filterStore := [TracedEventTypesPut 1 1 None, TracedEventTypesPut 2 1 None]\<rparr>)
   \<and> registry_ok (ex_empty\<lparr>filterStore := [TracedEventTypesPut 1 1 None, TracedEventTypesPut 2 1 None]\<rparr>)"
proof -
  have mem: "Comm ex_curl \<noteq> []" "ex_curl \<in> set (activeDumps ex_adm)"
    by (simp_all add: ex_curl_def ex_adm_def ex_empty_def)
  then have dup: "(ContainerID ex_curl \<noteq> [] \<and> (\<exists>x \<in> set (activeDumps ex_adm). ContainerID x = ContainerID ex_curl))
      \<or> (Comm ex_curl \<noteq> [] \<and> (\<exists>x \<in> set (activeDumps ex_adm). Comm x = Comm ex_curl))"
    by blast
  have ok: "registry_ok ex_adm"
    by (simp add: registry_ok_def unique_ContainerID_def unique_Comm_def ex_adm_def ex_empty_def
        ex_curl_def ex_container_def)
  have new: "NewActivityDumpManager ex_cfg Found Found Found Found [] Found Map.empty
       = Inr (ex_empty\<lparr>filterStore := [TracedEventTypesPut 1 1 None, TracedEventTypesPut 2 1 None]\<rparr>)"
    by (simp add: NewActivityDumpManager_def ex_cfg_def ex_empty_def)
  have act: "activeDumps (snd (insertActivityDump ex_cfg ex_env ex_adm ex_nginx))
       = [ex_container, ex_curl, ex_nginx]"
    by (simp add: activeDumps_insertActivityDump ex_adm_def ex_empty_def ex_nginx_def ex_curl_def
        ex_container_def)
  note a = duplicate_insert_ignored_and_registry_unique
    [where newDump = ex_curl and adm = ex_adm and cfg = ex_cfg and env = ex_env]
  note b = duplicate_insert_ignored_and_registry_unique
    [where newDump = ex_nginx and adm = ex_adm and cfg = ex_cfg and env = ex_env
       and clock = ex_clock and comm = "''curl''" and tp = Found and tc = Found and wl = Found
       and tet = Found and errs = "[]" and tcg = Found and fs = Map.empty
       and ?adm0.0 = "ex_empty\<lparr>filterStore := [TracedEventTypesPut 1 1 None, TracedEventTypesPut 2 1 None]\<rparr>"]
  note c = b [THEN conjunct2, THEN conjunct2, THEN mp, OF ok]
  have "insertActivityDump ex_cfg ex_env ex_adm ex_curl = (None, ex_adm)"
    by (rule a [THEN conjunct1, THEN mp, OF dup])
  moreover have "registry_ok (snd (insertActivityDump ex_cfg ex_env ex_adm ex_nginx))"
    by (rule c [THEN conjunct1])
  moreover have "\<exists>msg err adm'. StopActivityDump ex_adm ''curl'' = Some (msg, err, adm') \<and> registry_ok adm'"
    by (rule c [THEN conjunct2, THEN conjunct2, THEN conjunct2, THEN conjunct1])
  moreover have "\<exists>adm'. cleanup ex_clock ex_adm = Some adm' \<and> registry_ok adm'"
    by (rule c [THEN conjunct2, THEN conjunct2, THEN conjunct2, THEN conjunct2, THEN conjunct1])
  moreover
  have "registry_ok (ex_empty\<lparr>filterStore := [TracedEventTypesPut 1 1 None, TracedEventTypesPut 2 1 None]\<rparr>)"
    by (rule b [THEN conjunct2, THEN conjunct1, THEN mp, OF new])
  ultimately show ?thesis using mem ok new act by blast
qed

text \<open>
  C5. When the registry holds a dump \<open>d\<close> whose Comm is the target and no dump before it
  has that Comm, \<open>StopActivityDump\<close> finalizes \<open>d\<close>, removes it and nothing else, keeps the
  other entries in their order and returns success. When no active dump has that Comm it
  returns the not-found error and leaves the state as it was. No slice expression leaves
  its range.
\<close>

theorem stop_removes_first_match_or_reports_missing:
  "(activeDumps adm = pre @ d # post \<longrightarrow> (\<forall>x \<in> set pre. Comm x \<noteq> comm) \<longrightarrow> Comm d = comm \<longrightarrow>
      StopActivityDump adm comm =
        Some (\<lparr>StoppedError = None\<rparr>, None,
              adm\<lparr>doneCalls := doneCalls adm @ [d],
                  logged := logged adm @ [Infof (TracingStopped d)],
                  activeDumps := pre @ post\<rparr>))
   \<and> ((\<forall>x \<in> set (activeDumps adm). Comm x \<noteq> comm) \<longrightarrow>
      StopActivityDump adm comm =
        Some (\<lparr>StoppedError = Some (NoActivityDumpWithComm comm)\<rparr>,
              Some (NoActivityDumpWithComm comm), adm))"
  using StopActivityDump_found [of adm pre d post comm] StopActivityDump_missing [of adm comm]
  by blast

theorem stop_removes_first_match_or_reports_missing_witness:
  "activeDumps ex_adm = [ex_container] @ ex_curl # []
   \<and> Comm ex_container \<noteq> ''curl'' \<and> Comm ex_curl = ''curl''
   \<and> StopActivityDump ex_adm ''curl'' =
        Some (\<lparr>StoppedError = None\<rparr>, None,
              ex_adm\<lparr>doneCalls := [ex_curl], logged := [Infof (TracingStopped ex_curl)],
                     activeDumps := [ex_container]\<rparr>)
   \<and> Comm ex_container \<noteq> ''nginx'' \<and> Comm ex_curl \<noteq> ''nginx''
   \<and> StopActivityDump ex_adm ''nginx'' =
        Some (\<lparr>StoppedError = Some (NoActivityDumpWithComm ''nginx'')\<rparr>,
              Some (NoActivityDumpWithComm ''nginx''), ex_adm)"
proof -
  have a: "activeDumps ex_adm = [ex_container] @ ex_curl # []"
    by (simp add: ex_adm_def ex_empty_def)
  have b: "Comm ex_container \<noteq> ''curl''" "Comm ex_curl = ''curl''"
    "Comm ex_container \<noteq> ''nginx''" "Comm ex_curl \<noteq> ''nginx''"
    by (simp_all add: ex_container_def ex_curl_def)
  have c: "doneCalls ex_adm = []" "logged ex_adm = []"
    by (simp_all add: ex_adm_def ex_empty_def)
  from stop_removes_first_match_or_reports_missing [of ex_adm "[ex_container]" ex_curl "[]" "''curl''"]
    a b c
  have 1: "StopActivityDump ex_adm ''curl'' =
        Some (\<lparr>StoppedError = None\<rparr>, None,
              ex_adm\<lparr>doneCalls := [ex_curl], logged := [Infof (TracingStopped ex_curl)],
                     activeDumps := [ex_container]\<rparr>)"
    by simp
  from stop_removes_first_match_or_reports_missing [of ex_adm _ _ _ "''nginx''"] a b
  have 2: "StopActivityDump ex_adm ''nginx'' =
        Some (\<lparr>StoppedError = Some (NoActivityDumpWithComm ''nginx'')\<rparr>,
              Some (NoActivityDumpWithComm ''nginx''), ex_adm)"
    by simp
  from a b 1 2 show ?thesis by simp
qed

text \<open>
  C4, as amended. The send on the snapshot queue does not block: when the queue is full
  the request is dropped, the insertion still completes, registers the dump and returns
  \<open>nil\<close>. The drop is silent: full queue or not, the log grows only by the entries of
  failed filter writes, so with no such failure nothing is logged. When the queue is not
  full the dump is appended to it. A new manager has a queue of capacity 100, which an insertion keeps.
\<close>

theorem full_queue_drops_snapshot_silently:
  "(\<not> (ContainerID newDump \<noteq> [] \<and> (\<exists>x \<in> set (activeDumps adm). ContainerID x = ContainerID newDump)) \<longrightarrow>
    \<not> (Comm newDump \<noteq> [] \<and> (\<exists>x \<in> set (activeDumps adm). Comm x = Comm newDump)) \<longrightarrow>
      fst (insertActivityDump cfg env adm newDump) = None
    \<and> activeDumps (snd (insertActivityDump cfg env adm newDump)) = activeDumps adm @ [newDump]
    \<and> (snapshotQueueCap adm \<le> length (snapshotQueue adm) \<longrightarrow>
         snapshotQueue (snd (insertActivityDump cfg env adm newDump)) = snapshotQueue adm)
    \<and> (length (snapshotQueue adm) < snapshotQueueCap adm \<longrightarrow>
         snapshotQueue (snd (insertActivityDump cfg env adm newDump)) = snapshotQueue adm @ [newDump])
    \<and> logged (snd (insertActivityDump cfg env adm newDump)) =
        logged adm
        @ (case waitListPutErr env of
             Some e \<Rightarrow> if ContainerID newDump \<noteq> []
                       then [Debugf (CouldntInsertContainerID (ContainerID newDump) e)] else []
           | None \<Rightarrow> [])
        @ (case tracedCommsPutErr env of
             Some e \<Rightarrow> if Comm newDump \<noteq> []
                       then [Debugf (CouldntInsertCommFilter (Comm newDump) e)] else []
           | None \<Rightarrow> [])
    \<and> (waitListPutErr env = None \<longrightarrow> tracedCommsPutErr env = None \<longrightarrow>
         logged (snd (insertActivityDump cfg env adm newDump)) = logged adm))
   \<and> snapshotQueueCap (snd (insertActivityDump cfg env adm newDump)) = snapshotQueueCap adm
   \<and> (NewActivityDumpManager cfg tp tc wl tet errs tcg fs = Inr adm0 \<longrightarrow>
         snapshotQueueCap adm0 = 100 \<and> snapshotQueue adm0 = [])"
proof (intro conjI impI)
  assume a: "\<not> (ContainerID newDump \<noteq> [] \<and> (\<exists>x \<in> set (activeDumps adm). ContainerID x = ContainerID newDump))"
    and b: "\<not> (Comm newDump \<noteq> [] \<and> (\<exists>x \<in> set (activeDumps adm). Comm x = Comm newDump))"
  note eq = insertActivityDump_fresh [OF a b, of cfg env]
  show "fst (insertActivityDump cfg env adm newDump) = None" by (rule fst_insertActivityDump)
  show "activeDumps (snd (insertActivityDump cfg env adm newDump)) = activeDumps adm @ [newDump]"
    by (simp add: eq)
  show "snapshotQueue (snd (insertActivityDump cfg env adm newDump)) = snapshotQueue adm"
    if "snapshotQueueCap adm \<le> length (snapshotQueue adm)"
    using that by (simp add: eq)
  show "snapshotQueue (snd (insertActivityDump cfg env adm newDump)) = snapshotQueue adm @ [newDump]"
    if "length (snapshotQueue adm) < snapshotQueueCap adm"
    using that by (simp add: eq)
  show "logged (snd (insertActivityDump cfg env adm newDump)) =
        logged adm
        @ (case waitListPutErr env of
             Some e \<Rightarrow> if ContainerID newDump \<noteq> []
                       then [Debugf (CouldntInsertContainerID (ContainerID newDump) e)] else []
           | None \<Rightarrow> [])
        @ (case tracedCommsPutErr env of
             Some e \<Rightarrow> if Comm newDump \<noteq> []
                       then [Debugf (CouldntInsertCommFilter (Comm newDump) e)] else []
           | None \<Rightarrow> [])"
    by (simp add: eq)
  show "logged (snd (insertActivityDump cfg env adm newDump)) = logged adm"
    if "waitListPutErr env = None" "tracedCommsPutErr env = None"
    using that by (simp add: eq)
next
  show "snapshotQueueCap (snd (insertActivityDump cfg env adm newDump)) = snapshotQueueCap adm"
    by (rule untouched_by_insertActivityDump)
next
  assume "NewActivityDumpManager cfg tp tc wl tet errs tcg fs = Inr adm0"
  then show "snapshotQueueCap adm0 = 100" "snapshotQueue adm0 = []"
    using activeDumps_NewActivityDumpManager by blast+
qed

theorem full_queue_drops_snapshot_silently_witness:
  "snapshotQueueCap ex_full = 100 \<and> length (snapshotQueue ex_full) = 100
   \<and> waitListPutErr ex_env = None \<and> tracedCommsPutErr ex_env = None
   \<and> fst (insertActivityDump ex_cfg ex_env ex_full ex_curl) = None
   \<and> activeDumps (snd (insertActivityDump ex_cfg ex_env ex_full ex_curl)) = [ex_curl]
   \<and> snapshotQueue (snd (insertActivityDump ex_cfg ex_env ex_full ex_curl)) = snapshotQueue ex_full
   \<and> logged (snd (insertActivityDump ex_cfg ex_env ex_full ex_curl)) = []"
  using full_queue_drops_snapshot_silently [of ex_curl ex_full ex_cfg ex_env, THEN conjunct1,
      THEN mp, THEN mp, OF ex_full_fresh]
    ex_full_queue ex_env_no_errors
  by simp

text \<open>
  C4, as stated, fails: with the queue full (100 dumps, capacity 100) the insertion of
  \<open>ex_curl\<close> registers the dump, returns \<open>nil\<close> and drops the snapshot request, and the
  log holds no entry afterwards.
\<close>

theorem full_queue_drop_is_not_logged:
  "snapshotQueueCap ex_full = 100 \<and> length (snapshotQueue ex_full) = 100
   \<and> fst (insertActivityDump ex_cfg ex_env ex_full ex_curl) = None
   \<and> activeDumps (snd (insertActivityDump ex_cfg ex_env ex_full ex_curl)) = [ex_curl]
   \<and> snapshotQueue (snd (insertActivityDump ex_cfg ex_env ex_full ex_curl)) = replicate 100 ex_nginx
   \<and> logged (snd (insertActivityDump ex_cfg ex_env ex_full ex_curl)) = []"
  by (simp add: insertActivityDump_fresh [OF ex_full_fresh] ex_env_no_errors ex_full_queue)
     (simp add: ex_full_def ex_empty_def)

text \<open>
  C6. In an insertion that is not ignored, whatever errors the two \<open>Put\<close> calls on the
  kernel maps return, the call returns \<open>nil\<close> and the dump is appended to the registry;
  each failed \<open>Put\<close> leaves its entry in the log and nothing else is logged.
\<close>

theorem filter_write_failure_does_not_abort_insert:
  "\<not> (ContainerID newDump \<noteq> [] \<and> (\<exists>x \<in> set (activeDumps adm). ContainerID x = ContainerID newDump)) \<longrightarrow>
   \<not> (Comm newDump \<noteq> [] \<and> (\<exists>x \<in> set (activeDumps adm). Comm x = Comm newDump)) \<longrightarrow>
      fst (insertActivityDump cfg env adm newDump) = None
    \<and> activeDumps (snd (insertActivityDump cfg env adm newDump)) = activeDumps adm @ [newDump]
    \<and> logged (snd (insertActivityDump cfg env adm newDump)) =
        logged adm
        @ (case waitListPutErr env of
             Some e \<Rightarrow> if ContainerID newDump \<noteq> []
                       then [Debugf (CouldntInsertContainerID (ContainerID newDump) e)] else []
           | None \<Rightarrow> [])
        @ (case tracedCommsPutErr env of
             Some e \<Rightarrow> if Comm newDump \<noteq> []
                       then [Debugf (CouldntInsertCommFilter (Comm newDump) e)] else []
           | None \<Rightarrow> [])"
proof (intro impI)
  assume a: "\<not> (ContainerID newDump \<noteq> [] \<and> (\<exists>x \<in> set (activeDumps adm). ContainerID x = ContainerID newDump))"
    and b: "\<not> (Comm newDump \<noteq> [] \<and> (\<exists>x \<in> set (activeDumps adm). Comm x = Comm newDump))"
  show "fst (insertActivityDump cfg env adm newDump) = None
    \<and> activeDumps (snd (insertActivityDump cfg env adm newDump)) = activeDumps adm @ [newDump]
    \<and> logged (snd (insertActivityDump cfg env adm newDump)) =
        logged adm
        @ (case waitListPutErr env of
             Some e \<Rightarrow> if ContainerID newDump \<noteq> []
                       then [Debugf (CouldntInsertContainerID (ContainerID newDump) e)] else []
           | None \<Rightarrow> [])
        @ (case tracedCommsPutErr env of
             Some e \<Rightarrow> if Comm newDump \<noteq> []
                       then [Debugf (CouldntInsertCommFilter (Comm newDump) e)] else []
           | None \<Rightarrow> [])"
    by (simp add: insertActivityDump_fresh [OF a b])
qed

theorem filter_write_failure_does_not_abort_insert_witness:
  "waitListPutErr ex_env_failing = Some (External ''EPERM'')
   \<and> tracedCommsPutErr ex_env_failing = Some (External ''EPERM'')
   \<and> fst (insertActivityDump ex_cfg ex_env_failing ex_adm ex_other) = None
   \<and> activeDumps (snd (insertActivityDump ex_cfg ex_env_failing ex_adm ex_other))
       = [ex_container, ex_curl, ex_other]
   \<and> logged (snd (insertActivityDump ex_cfg ex_env_failing ex_adm ex_other))
       = [Debugf (CouldntInsertContainerID ''c2'' (External ''EPERM''))]
   \<and> fst (insertActivityDump ex_cfg ex_env_failing ex_adm ex_nginx) = None
   \<and> activeDumps (snd (insertActivityDump ex_cfg ex_env_failing ex_adm ex_nginx))
       = [ex_container, ex_curl, ex_nginx]
   \<and> logged (snd (insertActivityDump ex_cfg ex_env_failing ex_adm ex_nginx))
       = [Debugf (CouldntInsertCommFilter ''nginx'' (External ''EPERM''))]"
proof -
  have o: "ContainerID ex_other = ''c2''" "Comm ex_other = []"
    and n: "ContainerID ex_nginx = []" "Comm ex_nginx = ''nginx''"
    by (simp_all add: ex_other_def ex_nginx_def)
  note a = filter_write_failure_does_not_abort_insert [of ex_other ex_adm ex_cfg ex_env_failing,
      THEN mp, THEN mp, OF ex_adm_fresh_other]
  note b = filter_write_failure_does_not_abort_insert [of ex_nginx ex_adm ex_cfg ex_env_failing,
      THEN mp, THEN mp, OF ex_adm_fresh_nginx]
  from a b show ?thesis
    by (simp add: ex_env_failing_errors ex_adm_fields o n)
qed

text \<open>
  C7. An insertion that is not ignored issues exactly one \<open>Put\<close> on the cgroups wait list
  when the ContainerID of the dump is not empty, and none when it is empty (a Comm
  selector gets a \<open>Put\<close> on the traced comms only). The key is the ContainerID copied into
  the key buffer; the value is the monotonic timestamp of the instant \<open>now\<close> plus the
  product of the wait-list size and the default timeout, a product of 64-bit durations
  that is the product of the integers whenever that fits into 64 bits. An ignored
  insertion issues no \<open>Put\<close>, and no other operation of the manager issues one, so the
  entry is never refreshed.
\<close>

theorem wait_list_written_once_at_insertion:
  "(\<not> (ContainerID newDump \<noteq> [] \<and> (\<exists>x \<in> set (activeDumps adm). ContainerID x = ContainerID newDump)) \<longrightarrow>
    \<not> (Comm newDump \<noteq> [] \<and> (\<exists>x \<in> set (activeDumps adm). Comm x = Comm newDump)) \<longrightarrow>
      filterStore (snd (insertActivityDump cfg env adm newDump)) =
        filterStore adm
        @ (if ContainerID newDump \<noteq> [] then
             [CgroupsWaitListPut (copy_into (ContainerIDLen cfg) (ContainerID newDump))
                (ComputeMonotonicTimestamp env (Time_Add (now env)
                   (ActivityDumpCgroupsWaitListSize cfg * ActivityDumpDefaultDumpTimeout cfg)))
                (waitListPutErr env)]
           else [])
        @ (if Comm newDump \<noteq> [] then
             [TracedCommsPut (copy_into 16 (Comm newDump)) (GetTimeoutRawTimestamp env newDump)
                (tracedCommsPutErr env)]
           else []))
   \<and> (- (2 ^ 63) \<le> sint (ActivityDumpCgroupsWaitListSize cfg) * sint (ActivityDumpDefaultDumpTimeout cfg) \<longrightarrow>
      sint (ActivityDumpCgroupsWaitListSize cfg) * sint (ActivityDumpDefaultDumpTimeout cfg) < 2 ^ 63 \<longrightarrow>
        Time_Add (now env) (ActivityDumpCgroupsWaitListSize cfg * ActivityDumpDefaultDumpTimeout cfg)
          = now env + sint (ActivityDumpCgroupsWaitListSize cfg) * sint (ActivityDumpDefaultDumpTimeout cfg))
   \<and> ((ContainerID newDump \<noteq> [] \<and> (\<exists>x \<in> set (activeDumps adm). ContainerID x = ContainerID newDump))
        \<or> (Comm newDump \<noteq> [] \<and> (\<exists>x \<in> set (activeDumps adm). Comm x = Comm newDump)) \<longrightarrow>
      filterStore (snd (insertActivityDump cfg env adm newDump)) = filterStore adm)
   \<and> (\<exists>msg err adm'. StopActivityDump adm comm = Some (msg, err, adm') \<and> filterStore adm' = filterStore adm)
   \<and> (\<exists>adm'. cleanup clock adm = Some adm' \<and> filterStore adm' = filterStore adm)
   \<and> filterStore (ProcessEvent adm ev) = filterStore adm
   \<and> filterStore (resolveTags resolve adm) = filterStore adm
   \<and> filterStore (receive_snapshot snapshot adm) = filterStore adm
   \<and> filterStore (snd (SendStats dumpSendStats gaugeErr adm)) = filterStore adm
   \<and> filterStore (snd (snd (GenerateProfile genv adm path))) = filterStore adm"
proof (intro conjI impI)
  assume a: "\<not> (ContainerID newDump \<noteq> [] \<and> (\<exists>x \<in> set (activeDumps adm). ContainerID x = ContainerID newDump))"
    and b: "\<not> (Comm newDump \<noteq> [] \<and> (\<exists>x \<in> set (activeDumps adm). Comm x = Comm newDump))"
  show "filterStore (snd (insertActivityDump cfg env adm newDump)) =
        filterStore adm
        @ (if ContainerID newDump \<noteq> [] then
             [CgroupsWaitListPut (copy_into (ContainerIDLen cfg) (ContainerID newDump))
                (ComputeMonotonicTimestamp env (Time_Add (now env)
                   (ActivityDumpCgroupsWaitListSize cfg * ActivityDumpDefaultDumpTimeout cfg)))
                (waitListPutErr env)]
           else [])
        @ (if Comm newDump \<noteq> [] then
             [TracedCommsPut (copy_into 16 (Comm newDump)) (GetTimeoutRawTimestamp env newDump)
                (tracedCommsPutErr env)]
           else [])"
    by (simp add: insertActivityDump_fresh [OF a b])
next
  assume "- (2 ^ 63) \<le> sint (ActivityDumpCgroupsWaitListSize cfg) * sint (ActivityDumpDefaultDumpTimeout cfg)"
    "sint (ActivityDumpCgroupsWaitListSize cfg) * sint (ActivityDumpDefaultDumpTimeout cfg) < 2 ^ 63"
  then show "Time_Add (now env) (ActivityDumpCgroupsWaitListSize cfg * ActivityDumpDefaultDumpTimeout cfg)
          = now env + sint (ActivityDumpCgroupsWaitListSize cfg) * sint (ActivityDumpDefaultDumpTimeout cfg)"
    by (rule Duration_product_exact)
next
  assume "(ContainerID newDump \<noteq> [] \<and> (\<exists>x \<in> set (activeDumps adm). ContainerID x = ContainerID newDump))
        \<or> (Comm newDump \<noteq> [] \<and> (\<exists>x \<in> set (activeDumps adm). Comm x = Comm newDump))"
  then show "filterStore (snd (insertActivityDump cfg env adm newDump)) = filterStore adm"
    by (simp add: insertActivityDump_conflict)
next
  show "\<exists>msg err adm'. StopActivityDump adm comm = Some (msg, err, adm') \<and> filterStore adm' = filterStore adm"
    by (rule filterStore_StopActivityDump)
  show "\<exists>adm'. cleanup clock adm = Some adm' \<and> filterStore adm' = filterStore adm"
    by (rule filterStore_cleanup)
  show "filterStore (ProcessEvent adm ev) = filterStore adm" by (simp add: ProcessEvent_def)
  show "filterStore (resolveTags resolve adm) = filterStore adm" by (simp add: resolveTags_def)
  show "filterStore (receive_snapshot snapshot adm) = filterStore adm"
    by (rule filterStore_receive_snapshot)
  show "filterStore (snd (SendStats dumpSendStats gaugeErr adm)) = filterStore adm"
    by (rule filterStore_SendStats)
  show "filterStore (snd (snd (GenerateProfile genv adm path))) = filterStore adm"
    by (rule filterStore_GenerateProfile)
qed

theorem wait_list_written_once_at_insertion_witness:
  "filterStore (snd (insertActivityDump ex_cfg ex_env ex_adm ex_other)) =
     [CgroupsWaitListPut [CHR ''c'', CHR ''2'', CHR 0x00, CHR 0x00] 4600 None]
   \<and> filterStore (snd (insertActivityDump ex_cfg ex_env ex_adm ex_nginx)) =
     [TracedCommsPut (copy_into 16 ''nginx'') 25 None]
   \<and> Time_Add (now ex_env) (ActivityDumpCgroupsWaitListSize ex_cfg * ActivityDumpDefaultDumpTimeout ex_cfg)
       = 1000 + 2 * 1800
   \<and> filterStore (snd (insertActivityDump ex_cfg ex_env ex_adm ex_curl)) = []"
proof -
  note a = wait_list_written_once_at_insertion [of ex_other ex_adm ex_cfg ex_env,
      THEN conjunct1, THEN mp, THEN mp, OF ex_adm_fresh_other]
  note b = wait_list_written_once_at_insertion [of ex_nginx ex_adm ex_cfg ex_env,
      THEN conjunct1, THEN mp, THEN mp, OF ex_adm_fresh_nginx]
  note c = wait_list_written_once_at_insertion [of _ _ ex_cfg ex_env,
      THEN conjunct2, THEN conjunct1, THEN mp, THEN mp, OF ex_cfg_product]
  note d = wait_list_written_once_at_insertion [of ex_curl ex_adm ex_cfg ex_env,
      THEN conjunct2, THEN conjunct2, THEN conjunct1, THEN mp, OF ex_adm_duplicate_curl]
  have v: "ContainerID ex_other = ''c2''" "Comm ex_other = []"
    "ContainerID ex_nginx = []" "Comm ex_nginx = ''nginx''"
    "Start ex_nginx = 5" "Timeout ex_nginx = 20"
    by (simp_all add: ex_other_def ex_nginx_def)
  have e: "now ex_env = 1000" "waitListPutErr ex_env = None" "tracedCommsPutErr ex_env = None"
    "ComputeMonotonicTimestamp ex_env = (\<lambda>t. word_of_int t)"
    "GetTimeoutRawTimestamp ex_env = (\<lambda>d. word_of_int (Time_Add (Start d) (Timeout d)))"
    by (simp_all add: ex_env_def)
  have g: "ContainerIDLen ex_cfg = 4" "ActivityDumpCgroupsWaitListSize ex_cfg = 2"
    "ActivityDumpDefaultDumpTimeout ex_cfg = 1800"
    by (simp_all add: ex_cfg_def)
  have k: "copy_into 4 ''c2'' = [CHR ''c'', CHR ''2'', CHR 0x00, CHR 0x00]"
    by (simp add: copy_into_def eval_nat_numeral)
  from a b c d show ?thesis
    by (simp add: v e g k ex_adm_fields Time_Add_def)
qed

text \<open>
  C10. \<open>insertActivityDump\<close> returns \<open>nil\<close> for every candidate. So once the factory has
  succeeded, \<open>DumpActivity\<close> always answers with the metadata of the new dump and no error,
  and \<open>HandleCgroupTracingEvent\<close> always logs that tracing started: neither reaches its
  branch for a failed insertion, and neither calls \<open>Close\<close> on the new dump. A
  \<open>DumpActivity\<close> request whose non-empty Comm is that of an active dump gets this success
  answer although the registry is left as it was.
\<close>

theorem insert_never_fails_so_duplicate_request_succeeds:
  "fst (insertActivityDump cfg env adm newDump) = None
   \<and> (nd = fresh\<lparr>Comm := p_Comm params, Timeout := p_Timeout params * Minute,
                  DifferentiateArgs := p_DifferentiateArgs params,
                  WithGraph := p_WithGraph params\<rparr> \<longrightarrow>
        DumpActivity cfg fresh None env adm params =
          (DumpMetadata nd, None,
           (snd (insertActivityDump cfg env adm nd))
             \<lparr>logged := logged (snd (insertActivityDump cfg env adm nd)) @ [Infof (TracingStarted nd)]\<rparr>)
      \<and> closeCalls (snd (snd (DumpActivity cfg fresh None env adm params))) = closeCalls adm
      \<and> (p_Comm params \<noteq> [] \<longrightarrow> (\<exists>x \<in> set (activeDumps adm). Comm x = p_Comm params) \<longrightarrow>
           DumpActivity cfg fresh None env adm params =
             (DumpMetadata nd, None, adm\<lparr>logged := logged adm @ [Infof (TracingStarted nd)]\<rparr>)
         \<and> activeDumps (snd (snd (DumpActivity cfg fresh None env adm params))) = activeDumps adm))
   \<and> (cd = fresh\<lparr>ContainerID := ContainerContext_ID event,
                  Timeout := Time_Sub (resolveMono (TimeoutRaw event)) cbNow,
                  DifferentiateArgs := True, WithGraph := True\<rparr> \<longrightarrow>
        HandleCgroupTracingEvent cfg fresh None resolveMono cbNow env adm event =
          (snd (insertActivityDump cfg env adm cd))
            \<lparr>logged := logged (snd (insertActivityDump cfg env adm cd)) @ [Infof (TracingStarted cd)]\<rparr>)
   \<and> closeCalls (HandleCgroupTracingEvent cfg fresh factoryErr resolveMono cbNow env adm event)
       = closeCalls adm"
proof (intro conjI impI)
  show "fst (insertActivityDump cfg env adm newDump) = None" by (rule fst_insertActivityDump)
  show "closeCalls (HandleCgroupTracingEvent cfg fresh factoryErr resolveMono cbNow env adm event)
       = closeCalls adm" by (rule closeCalls_HandleCgroupTracingEvent)
next
  assume cd: "cd = fresh\<lparr>ContainerID := ContainerContext_ID event,
                  Timeout := Time_Sub (resolveMono (TimeoutRaw event)) cbNow,
                  DifferentiateArgs := True, WithGraph := True\<rparr>"
  then show "HandleCgroupTracingEvent cfg fresh None resolveMono cbNow env adm event =
          (snd (insertActivityDump cfg env adm cd))
            \<lparr>logged := logged (snd (insertActivityDump cfg env adm cd)) @ [Infof (TracingStarted cd)]\<rparr>"
    by (rule HandleCgroupTracingEvent_factory_ok)
next
  assume nd: "nd = fresh\<lparr>Comm := p_Comm params, Timeout := p_Timeout params * Minute,
                  DifferentiateArgs := p_DifferentiateArgs params,
                  WithGraph := p_WithGraph params\<rparr>"
  note eq = DumpActivity_factory_ok [OF nd, of cfg env adm]
  show "DumpActivity cfg fresh None env adm params =
          (DumpMetadata nd, None,
           (snd (insertActivityDump cfg env adm nd))
             \<lparr>logged := logged (snd (insertActivityDump cfg env adm nd)) @ [Infof (TracingStarted nd)]\<rparr>)"
    by (rule eq)
  show "closeCalls (snd (snd (DumpActivity cfg fresh None env adm params))) = closeCalls adm"
    by (simp add: eq untouched_by_insertActivityDump)
  assume "p_Comm params \<noteq> []" "\<exists>x \<in> set (activeDumps adm). Comm x = p_Comm params"
  then have "(ContainerID nd \<noteq> [] \<and> (\<exists>x \<in> set (activeDumps adm). ContainerID x = ContainerID nd))
      \<or> (Comm nd \<noteq> [] \<and> (\<exists>x \<in> set (activeDumps adm). Comm x = Comm nd))"
    by (simp add: nd)
  then have ign: "insertActivityDump cfg env adm nd = (None, adm)"
    by (rule insertActivityDump_conflict)
  show "DumpActivity cfg fresh None env adm params =
             (DumpMetadata nd, None, adm\<lparr>logged := logged adm @ [Infof (TracingStarted nd)]\<rparr>)"
    by (simp add: eq ign)
  show "activeDumps (snd (snd (DumpActivity cfg fresh None env adm params))) = activeDumps adm"
    by (simp add: eq ign)
qed

theorem insert_never_fails_so_duplicate_request_succeeds_witness:
  "p_Comm ex_params = ''curl'' \<and> Comm ex_curl = ''curl'' \<and> ex_curl \<in> set (activeDumps ex_adm)
   \<and> DumpActivity ex_cfg ex_fresh None ex_env ex_adm ex_params =
       (DumpMetadata (ex_fresh\<lparr>Comm := ''curl'', Timeout := 60000000000,
                              DifferentiateArgs := True, WithGraph := False\<rparr>),
        None,
        ex_adm\<lparr>logged := [Infof (TracingStarted (ex_fresh\<lparr>Comm := ''curl'', Timeout := 60000000000,
                              DifferentiateArgs := True, WithGraph := False\<rparr>))]\<rparr>)
   \<and> activeDumps (snd (snd (DumpActivity ex_cfg ex_fresh None ex_env ex_adm ex_params)))
       = [ex_container, ex_curl]
   \<and> ex_fresh\<lparr>Comm := ''curl'', Timeout := 60000000000,
               DifferentiateArgs := True, WithGraph := False\<rparr> \<notin> set [ex_container, ex_curl]"
proof -
  let ?nd = "ex_fresh\<lparr>Comm := ''curl'', Timeout := 60000000000,
                      DifferentiateArgs := True, WithGraph := False\<rparr>"
  have p: "p_Comm ex_params = ''curl''" "p_Timeout ex_params = 1"
    "p_DifferentiateArgs ex_params = True" "p_WithGraph ex_params = False"
    by (simp_all add: ex_params_def)
  have nd: "?nd = ex_fresh\<lparr>Comm := p_Comm ex_params, Timeout := p_Timeout ex_params * Minute,
                  DifferentiateArgs := p_DifferentiateArgs ex_params,
                  WithGraph := p_WithGraph ex_params\<rparr>"
    by (simp add: p Minute_def)
  have ne: "p_Comm ex_params \<noteq> []" by (simp add: p)
  have c: "Comm ex_curl = ''curl''" by (simp add: ex_curl_def)
  have m: "ex_curl \<in> set (activeDumps ex_adm)" by (simp add: ex_adm_fields)
  from c m p have ex: "\<exists>x \<in> set (activeDumps ex_adm). Comm x = p_Comm ex_params" by auto
  note t = insert_never_fails_so_duplicate_request_succeeds
    [where nd = ?nd and fresh = ex_fresh and params = ex_params and cfg = ex_cfg and env = ex_env
       and adm = ex_adm,
     THEN conjunct2, THEN conjunct1, THEN mp, OF nd,
     THEN conjunct2, THEN conjunct2, THEN mp, THEN mp, OF ne ex]
  have d: "?nd \<notin> set [ex_container, ex_curl]"
    by (simp add: ex_fresh_def ex_container_def ex_curl_def)
  from t p c m d show ?thesis by (simp add: ex_adm_fields)
qed

text \<open>
  C8. \<open>SendStats\<close> asks the active dumps for their metrics in the order of the registry.
  At the first dump whose emission fails it stops: it returns that error, wrapped with the
  dump, asks no later dump and emits no gauge. When every dump succeeds it emits the gauge
  with the number of active dumps and returns \<open>nil\<close>, also when the gauge emission fails,
  which only adds an error entry to the log.
\<close>

theorem send_stats_fails_fast_and_swallows_gauge_error:
  "(activeDumps adm = pre @ d # post \<longrightarrow> (\<forall>x \<in> set pre. dumpSendStats x = None) \<longrightarrow>
    dumpSendStats d = Some e \<longrightarrow>
      SendStats dumpSendStats gaugeErr adm =
        (Some (CouldntSendMetricsFor d e), adm\<lparr>dumpStatsCalls := dumpStatsCalls adm @ pre @ [d]\<rparr>))
   \<and> ((\<forall>x \<in> set (activeDumps adm). dumpSendStats x = None) \<longrightarrow>
      SendStats dumpSendStats gaugeErr adm =
        (None,
         adm\<lparr>dumpStatsCalls := dumpStatsCalls adm @ activeDumps adm,
             gauges := gauges adm @ [length (activeDumps adm)],
             logged := logged adm @
               (case gaugeErr of Some ge \<Rightarrow> [Errorf (CouldntSendActiveDumpsMetric ge)] | None \<Rightarrow> [])\<rparr>))"
proof (intro conjI impI)
  assume "activeDumps adm = pre @ d # post" "\<forall>x \<in> set pre. dumpSendStats x = None"
    "dumpSendStats d = Some e"
  then show "SendStats dumpSendStats gaugeErr adm =
        (Some (CouldntSendMetricsFor d e), adm\<lparr>dumpStatsCalls := dumpStatsCalls adm @ pre @ [d]\<rparr>)"
    by (simp add: SendStats_def send_dump_stats_first_failure)
next
  assume "\<forall>x \<in> set (activeDumps adm). dumpSendStats x = None"
  then show "SendStats dumpSendStats gaugeErr adm =
        (None,
         adm\<lparr>dumpStatsCalls := dumpStatsCalls adm @ activeDumps adm,
             gauges := gauges adm @ [length (activeDumps adm)],
             logged := logged adm @
               (case gaugeErr of Some ge \<Rightarrow> [Errorf (CouldntSendActiveDumpsMetric ge)] | None \<Rightarrow> [])\<rparr>)"
    by (simp add: SendStats_def send_dump_stats_all_ok Let_def split: option.splits)
qed

theorem send_stats_fails_fast_and_swallows_gauge_error_witness:
  "activeDumps ex_adm = [ex_container] @ ex_curl # []
   \<and> ex_stats_failing ex_container = None
   \<and> ex_stats_failing ex_curl = Some (External ''no route'')
   \<and> SendStats ex_stats_failing None ex_adm =
       (Some (CouldntSendMetricsFor ex_curl (External ''no route'')),
        ex_adm\<lparr>dumpStatsCalls := [ex_container, ex_curl]\<rparr>)
   \<and> ex_stats_ok ex_container = None \<and> ex_stats_ok ex_curl = None
   \<and> SendStats ex_stats_ok (Some (External ''statsd down'')) ex_adm =
       (None,
        ex_adm\<lparr>dumpStatsCalls := [ex_container, ex_curl], gauges := [2],
               logged := [Errorf (CouldntSendActiveDumpsMetric (External ''statsd down''))]\<rparr>)"
proof -
  have a: "activeDumps ex_adm = [ex_container] @ ex_curl # []"
    by (simp add: ex_adm_fields)
  have f: "\<forall>x \<in> set [ex_container]. ex_stats_failing x = None"
    "ex_stats_failing ex_curl = Some (External ''no route'')"
    by (simp_all add: ex_stats_failing_def ex_container_def ex_curl_def)
  have g: "\<forall>x \<in> set (activeDumps ex_adm). ex_stats_ok x = None"
    by (simp add: ex_stats_ok_def)
  have z: "dumpStatsCalls ex_adm = []" "gauges ex_adm = []" "logged ex_adm = []"
    by (simp_all add: ex_adm_def ex_empty_def)
  note t1 = send_stats_fails_fast_and_swallows_gauge_error
    [of ex_adm "[ex_container]" ex_curl "[]" ex_stats_failing "External ''no route''" None,
     THEN conjunct1, THEN mp, THEN mp, THEN mp, OF a f]
  note t2 = send_stats_fails_fast_and_swallows_gauge_error
    [of ex_adm _ _ _ ex_stats_ok _ "Some (External ''statsd down'')",
     THEN conjunct2, THEN mp, OF g]
  from t1 t2 a f show ?thesis
    by (simp add: z ex_adm_fields ex_stats_ok_def)
qed

text \<open>
  C9. When the dump file opens, reads and parses, a new profile file can be created and
  its mode changed, and the template executes, \<open>GenerateProfile\<close> returns the path of a
  file that did not exist before; the file holds the rendered profile and has mode 0400,
  in which the owner-read bit is the only bit set. The call returns an error exactly when
  one of these steps fails, and then the answer carries that error and no path. In every
  case the manager state differs from the one before in its files only: the registry is
  untouched, and so is every file that existed.
\<close>

theorem generate_profile_writes_owner_read_only_file:
  "(openErr env = None \<longrightarrow> files adm src = Some f \<longrightarrow> readErr env = None \<longrightarrow>
    Unmarshal env (content f) = Inr dump \<longrightarrow> tempFile env = Inr rnd \<longrightarrow>
    files adm (''/tmp/profile-'' @ rnd) = None \<longrightarrow> chmodErr env = None \<longrightarrow> executeErr env = None \<longrightarrow>
      GenerateProfile env adm src =
        (\<lparr>ProfilePath = ''/tmp/profile-'' @ rnd, ProfileError = None\<rparr>, None,
         adm\<lparr>files := (files adm)(''/tmp/profile-'' @ rnd \<mapsto>
                 \<lparr>content = execute_profileTmpl (GenerateProfileData env dump), mode = mode_0400\<rparr>)\<rparr>))
   \<and> mode_0400 = 2 ^ 8
   \<and> ((fst (snd (GenerateProfile env adm src)) = None) =
       (openErr env = None
        \<and> (\<exists>f. files adm src = Some f \<and> (\<exists>dump. Unmarshal env (content f) = Inr dump))
        \<and> readErr env = None
        \<and> (\<exists>rnd. tempFile env = Inr rnd \<and> files adm (''/tmp/profile-'' @ rnd) = None)
        \<and> chmodErr env = None \<and> executeErr env = None))
   \<and> (fst (snd (GenerateProfile env adm src)) = Some e \<longrightarrow>
        fst (GenerateProfile env adm src) = \<lparr>ProfilePath = [], ProfileError = Some e\<rparr>)
   \<and> (\<exists>fs. snd (snd (GenerateProfile env adm src)) = adm\<lparr>files := fs\<rparr>)
   \<and> activeDumps (snd (snd (GenerateProfile env adm src))) = activeDumps adm
   \<and> (files adm p = Some g \<longrightarrow> files (snd (snd (GenerateProfile env adm src))) p = Some g)"
proof (intro conjI impI)
  assume "openErr env = None" "files adm src = Some f" "readErr env = None"
    "Unmarshal env (content f) = Inr dump" "tempFile env = Inr rnd"
    "files adm (''/tmp/profile-'' @ rnd) = None" "chmodErr env = None" "executeErr env = None"
  then show "GenerateProfile env adm src =
        (\<lparr>ProfilePath = ''/tmp/profile-'' @ rnd, ProfileError = None\<rparr>, None,
         adm\<lparr>files := (files adm)(''/tmp/profile-'' @ rnd \<mapsto>
                 \<lparr>content = execute_profileTmpl (GenerateProfileData env dump), mode = mode_0400\<rparr>)\<rparr>)"
    by (rule GenerateProfile_success)
next
  show "mode_0400 = 2 ^ 8" by (simp add: mode_0400_def)
  show "(fst (snd (GenerateProfile env adm src)) = None) =
       (openErr env = None
        \<and> (\<exists>f. files adm src = Some f \<and> (\<exists>dump. Unmarshal env (content f) = Inr dump))
        \<and> readErr env = None
        \<and> (\<exists>rnd. tempFile env = Inr rnd \<and> files adm (''/tmp/profile-'' @ rnd) = None)
        \<and> chmodErr env = None \<and> executeErr env = None)"
    by (rule GenerateProfile_error_iff)
  show "\<exists>fs. snd (snd (GenerateProfile env adm src)) = adm\<lparr>files := fs\<rparr>"
    by (rule GenerateProfile_files_only)
  show "activeDumps (snd (snd (GenerateProfile env adm src))) = activeDumps adm"
    by (rule activeDumps_GenerateProfile)
next
  assume "fst (snd (GenerateProfile env adm src)) = Some e"
  then show "fst (GenerateProfile env adm src) = \<lparr>ProfilePath = [], ProfileError = Some e\<rparr>"
    by (rule GenerateProfile_error_reported)
next
  assume "files adm p = Some g"
  then show "files (snd (snd (GenerateProfile env adm src))) p = Some g"
    by (rule GenerateProfile_keeps_files)
qed

theorem generate_profile_writes_owner_read_only_file_witness:
  "files ex_disk ''/tmp/dump.json'' = Some \<lparr>content = ''{}'', mode = 420\<rparr>
   \<and> files ex_disk ''/tmp/profile-123'' = None
   \<and> fst (GenerateProfile ex_genv ex_disk ''/tmp/dump.json'')
       = \<lparr>ProfilePath = ''/tmp/profile-123'', ProfileError = None\<rparr>
   \<and> fst (snd (GenerateProfile ex_genv ex_disk ''/tmp/dump.json'')) = None
   \<and> files (snd (snd (GenerateProfile ex_genv ex_disk ''/tmp/dump.json''))) ''/tmp/profile-123''
       = Some \<lparr>content = ''---'' @ nl @ ''name: N'' @ nl @ ''selector:'' @ nl @ ''  - S'' @ nl @ nl
                  @ ''rules:'' @ nl @ ''  - id: id1'' @ nl @ ''    expression: expr1'' @ nl @ nl,
                mode = 256\<rparr>
   \<and> activeDumps (snd (snd (GenerateProfile ex_genv ex_disk ''/tmp/dump.json'')))
       = [ex_container, ex_curl]
   \<and> fst (snd (GenerateProfile ex_genv ex_disk ''/tmp/missing.json''))
       = Some (CouldntOpenDumpFile (External ''no such file or directory''))
   \<and> fst (GenerateProfile ex_genv ex_disk ''/tmp/missing.json'')
       = \<lparr>ProfilePath = [],
          ProfileError = Some (CouldntOpenDumpFile (External ''no such file or directory''))\<rparr>"
proof -
  have d: "files ex_disk ''/tmp/dump.json'' = Some \<lparr>content = ''{}'', mode = 420\<rparr>"
    "files ex_disk (''/tmp/profile-'' @ ''123'') = None" "activeDumps ex_disk = [ex_container, ex_curl]"
    by (simp_all add: ex_disk_def ex_adm_def ex_empty_def)
  have g: "openErr ex_genv = None" "readErr ex_genv = None"
    "Unmarshal ex_genv (content \<lparr>content = ''{}'', mode = 420\<rparr>) = Inr ''dump''"
    "tempFile ex_genv = Inr ''123''" "chmodErr ex_genv = None" "executeErr ex_genv = None"
    by (simp_all add: ex_genv_def)
  note ok = generate_profile_writes_owner_read_only_file
    [where env = ex_genv and adm = ex_disk and src = "''/tmp/dump.json''",
     THEN conjunct1, THEN mp, THEN mp, THEN mp, THEN mp, THEN mp, THEN mp, THEN mp, THEN mp,
     OF g(1) d(1) g(2) g(3) g(4) d(2) g(5) g(6)]
  have r: "execute_profileTmpl (GenerateProfileData ex_genv ''dump'')
       = ''---'' @ nl @ ''name: N'' @ nl @ ''selector:'' @ nl @ ''  - S'' @ nl @ nl
                  @ ''rules:'' @ nl @ ''  - id: id1'' @ nl @ ''    expression: expr1'' @ nl @ nl"
    by (simp add: execute_profileTmpl_def render_rule_def ex_genv_def ex_profile_def)
  have miss: "fst (snd (GenerateProfile ex_genv ex_disk ''/tmp/missing.json''))
       = Some (CouldntOpenDumpFile (External ''no such file or directory''))"
    by (simp add: GenerateProfile_def os_Open_def profile_failed_def g ex_disk_def)
  note rep = generate_profile_writes_owner_read_only_file
    [where env = ex_genv and adm = ex_disk and src = "''/tmp/missing.json''",
     THEN conjunct2, THEN conjunct2, THEN conjunct2, THEN conjunct1, THEN mp, OF miss]
  from ok rep miss d show ?thesis
    by (simp add: r mode_0400_def)
qed

end
